theory Spec2Isabelle
  imports Main "HOL-Library.Sublist"
begin

section \<open>Strings and characters\<close>

text \<open>
  A Python \<open>str\<close> is a sequence of Unicode code points, so text is modelled as a list of
  code points (\<open>nat\<close>).  ASCII literals of the source are written as HOL strings and
  converted with \<open>u\<close>; the names the source only compares against fixed ASCII words
  (alignment keywords, XML attribute values) stay HOL strings.  Integers are Python's
  unbounded \<open>int\<close>.
\<close>

type_synonym ustr = "nat list"

definition u :: "string \<Rightarrow> ustr" where
  "u s = map of_char s"

definition bsl :: nat where "bsl = 92"        \<comment> \<open>the backslash\<close>
definition NBSP :: nat where "NBSP = 160"      \<comment> \<open>U+00A0\<close>
definition EM_DASH :: nat where "EM_DASH = 8212" \<comment> \<open>U+2014\<close>
definition BULLET :: nat where "BULLET = 8226"  \<comment> \<open>U+2022\<close>

definition is_alpha :: "nat \<Rightarrow> bool" where  \<comment> \<open>the class \<open>[a-zA-Z]\<close>\<close>
  "is_alpha c = ((65 \<le> c \<and> c \<le> 90) \<or> (97 \<le> c \<and> c \<le> 122))"

definition is_upper :: "nat \<Rightarrow> bool" where  \<comment> \<open>the class \<open>[A-Z]\<close>\<close>
  "is_upper c = (65 \<le> c \<and> c \<le> 90)"

definition is_alnum :: "nat \<Rightarrow> bool" where  \<comment> \<open>the class \<open>[A-Za-z0-9]\<close>\<close>
  "is_alnum c = (is_alpha c \<or> (48 \<le> c \<and> c \<le> 57))"

definition is_space :: "nat \<Rightarrow> bool" where
  \<comment> \<open>\<open>\s\<close> of a \<open>str\<close> pattern and the characters \<open>str.strip()\<close> removes:
      the Unicode white space of CPython (\<open>str.isspace\<close>).\<close>
  "is_space c = ((9 \<le> c \<and> c \<le> 13) \<or> (28 \<le> c \<and> c \<le> 32) \<or> c = 133 \<or> c = 160
      \<or> c = 5760 \<or> (8192 \<le> c \<and> c \<le> 8202) \<or> c = 8232 \<or> c = 8233 \<or> c = 8239
      \<or> c = 8287 \<or> c = 12288)"

section \<open>Constants of the template\<close>

definition FONT :: string where "FONT = ''Times New Roman''"

definition PAGE_W_TWIPS :: int where "PAGE_W_TWIPS = 12240"
definition PAGE_H_TWIPS :: int where "PAGE_H_TWIPS = 15840"
definition MARGIN_TOP_TWIPS :: int where "MARGIN_TOP_TWIPS = 1080"
definition MARGIN_BOTTOM_TWIPS :: int where "MARGIN_BOTTOM_TWIPS = 1440"
definition MARGIN_LR_TWIPS :: int where "MARGIN_LR_TWIPS = 893"

definition TITLE_PT :: int where "TITLE_PT = 24"
definition AUTHOR_PT :: int where "AUTHOR_PT = 11"
definition AUTHOR_AFFIL_PT :: int where "AUTHOR_AFFIL_PT = 9"
definition AFFIL_PT :: int where "AFFIL_PT = 10"
definition ABSTRACT_PT :: int where "ABSTRACT_PT = 9"
definition BODY_PT :: int where "BODY_PT = 10"
definition H1_PT :: int where "H1_PT = 10"
definition H2_PT :: int where "H2_PT = 10"
definition REF_PT :: int where "REF_PT = 8"
definition KEYWORDS_PT :: int where "KEYWORDS_PT = 9"

definition AUTHOR_COL_SPACE_TWIPS :: int where "AUTHOR_COL_SPACE_TWIPS = 216"
definition BODY_FIRST_INDENT :: int where "BODY_FIRST_INDENT = 288"
definition ABSTRACT_FIRST_INDENT :: int where "ABSTRACT_FIRST_INDENT = 272"
definition KEYWORDS_FIRST_INDENT :: int where "KEYWORDS_FIRST_INDENT = 274"
definition COL_SPACE_TWIPS :: int where "COL_SPACE_TWIPS = 360"
definition REF_INDENT_TWIPS :: int where "REF_INDENT_TWIPS = 354"

section \<open>The parsed document\<close>

record author =
  a_name :: ustr
  a_lines :: "ustr list"

datatype content_item = PlainText ustr | Equation ustr

record section_rec =
  s_level :: int
  s_heading :: ustr
  s_number :: int
  s_content :: "content_item list"

record parsed =
  p_title :: ustr
  p_authors :: "author list"
  p_abstract :: "ustr list"
  p_keywords :: ustr
  p_sections :: "section_rec list"
  p_references :: "ustr list"

section \<open>Runs\<close>

text \<open>
  The element \<open>make_run\<close> builds: the font, the size in half-points, the toggles, the
  \<open>w:vertAlign\<close> children in the order they are appended, and the text.  The other runs
  the builder assembles by hand are a tab, a soft line break carrying a size, and the
  bullet glyph.  Attribute values are kept as integers, not as their decimal strings, and
  every string is taken as a text the element accepts.
\<close>

record run_el =
  r_font :: string
  r_sz :: int
  r_b :: bool
  r_i :: bool
  r_smallCaps :: bool
  r_vertAlign :: "string list"
  r_t :: ustr

datatype run = Run run_el | TabRun | BrRun int | BulletRun run_el

text \<open>The keyword arguments of \<open>make_run\<close> and their defaults.\<close>

record rargs =
  rsize :: int
  bold :: bool
  italic :: bool
  small_caps :: bool
  subscript :: bool
  superscript :: bool
  font :: string

definition rdef :: rargs where
  "rdef = \<lparr>rsize = BODY_PT, bold = False, italic = False, small_caps = False,
           subscript = False, superscript = False, font = FONT\<rparr>"

definition make_run :: "ustr \<Rightarrow> rargs \<Rightarrow> run" where
  "make_run txt a = Run \<lparr>r_font = font a, r_sz = rsize a * 2, r_b = bold a, r_i = italic a,
     r_smallCaps = small_caps a,
     r_vertAlign = (if subscript a then [''subscript''] else [])
                 @ (if superscript a then [''superscript''] else []),
     r_t = txt\<rparr>"

section \<open>Paragraphs\<close>

record ind_el =
  i_firstLine :: "int option"
  i_left :: "int option"
  i_hanging :: "int option"

record para_el =
  pp_keepNext :: bool
  pp_tabs :: "(int \<times> string) list"
  pp_before :: int
  pp_after :: int
  pp_line :: "(int \<times> string) option"
  pp_ind :: "ind_el option"
  pp_jc :: string
  pp_runs :: "run list"

text \<open>The keyword arguments of \<open>make_paragraph\<close> and their defaults.\<close>

record pargs =
  align :: string
  space_before :: int
  space_after :: int
  first_indent :: "int option"
  left_indent :: "int option"
  hanging :: "int option"
  keep_next :: bool
  line_spacing :: "int option"
  line_rule :: string
  tab_stops :: "(int \<times> string) list"

definition pdef :: pargs where
  "pdef = \<lparr>align = ''justify'', space_before = 0, space_after = 80, first_indent = None,
           left_indent = None, hanging = None, keep_next = False, line_spacing = Some 228,
           line_rule = ''auto'', tab_stops = []\<rparr>"

definition align_map :: "string \<Rightarrow> string" where
  \<comment> \<open>\<open>align_map.get(align, "both")\<close>\<close>
  "align_map a = (if a = ''justify'' then ''both'' else if a = ''center'' then ''center''
     else if a = ''left'' then ''start'' else if a = ''right'' then ''end'' else ''both'')"

definition make_paragraph :: "run list \<Rightarrow> pargs \<Rightarrow> para_el" where
  "make_paragraph rs a = \<lparr>
     pp_keepNext = keep_next a,
     pp_tabs = tab_stops a,
     pp_before = space_before a,
     pp_after = space_after a,
     pp_line = (case line_spacing a of None \<Rightarrow> None | Some l \<Rightarrow> Some (l, line_rule a)),
     pp_ind = (if first_indent a \<noteq> None \<or> left_indent a \<noteq> None \<or> hanging a \<noteq> None
               then Some \<lparr>i_firstLine = (if first_indent a \<noteq> None \<and> hanging a = None
                                          then first_indent a else None),
                          i_left = left_indent a, i_hanging = hanging a\<rparr>
               else None),
     pp_jc = align_map (align a),
     pp_runs = rs\<rparr>"

section \<open>Section properties and the body\<close>

record sectPr =
  sp_type :: "string option"
  sp_pgSz :: "int \<times> int"
  sp_pgMar :: "int \<times> int \<times> int \<times> int \<times> int \<times> int \<times> int"
  sp_cols_num :: int
  sp_cols_space :: int
  sp_cols_equalWidth :: bool
  sp_linePitch :: int

text \<open>
  A child of \<open>w:body\<close> that the builder appends is a paragraph with runs, or the separator
  paragraph of a section break, which carries nothing but a \<open>w:sectPr\<close>.  The document
  keeps the paragraphs in order and the one \<open>w:sectPr\<close> that is a direct child of the body.
\<close>

datatype block = Para para_el | SectBreak sectPr

record document =
  d_body :: "block list"
  d_sectPr :: "sectPr option"

definition page_margins :: "int \<times> int \<times> int \<times> int \<times> int \<times> int \<times> int" where
  \<comment> \<open>top, right, bottom, left, header, footer, gutter\<close>
  "page_margins = (MARGIN_TOP_TWIPS, MARGIN_LR_TWIPS, MARGIN_BOTTOM_TWIPS, MARGIN_LR_TWIPS,
                   720, 720, 0)"

definition insert_before :: "nat \<Rightarrow> block \<Rightarrow> block list \<Rightarrow> block list" where
  \<comment> \<open>\<open>body[i].addprevious(p)\<close>: \<open>p\<close> becomes the sibling just before the element at
      index \<open>i\<close>\<close>
  "insert_before i p body = take i body @ [p] @ drop i body"

definition inject_continuous_two_col_section_break :: "block list \<Rightarrow> nat \<Rightarrow> block list" where
  "inject_continuous_two_col_section_break body i =
     insert_before i (SectBreak \<lparr>sp_type = None,
        sp_pgSz = (PAGE_W_TWIPS, PAGE_H_TWIPS), sp_pgMar = page_margins,
        sp_cols_num = 1, sp_cols_space = COL_SPACE_TWIPS, sp_cols_equalWidth = False,
        sp_linePitch = 360\<rparr>) body"

definition inject_section_break :: "block list \<Rightarrow> nat \<Rightarrow> int \<Rightarrow> int \<Rightarrow> bool \<Rightarrow> block list" where
  "inject_section_break body i num_cols col_space continuous =
     insert_before i (SectBreak \<lparr>sp_type = (if continuous then Some ''continuous'' else None),
        sp_pgSz = (PAGE_W_TWIPS, PAGE_H_TWIPS), sp_pgMar = page_margins,
        sp_cols_num = num_cols, sp_cols_space = col_space,
        sp_cols_equalWidth = (num_cols > 1),
        sp_linePitch = 360\<rparr>) body"

fun author_line_runs :: "int \<Rightarrow> ustr list \<Rightarrow> run list" where
  "author_line_runs sz [] = []"
| "author_line_runs sz (l # ls) =
     BrRun (sz * 2) # make_run l (rdef\<lparr>rsize := sz, italic := True\<rparr>) # author_line_runs sz ls"

definition make_author_paragraph :: "author \<Rightarrow> para_el" where
  "make_author_paragraph a =
     make_paragraph
       (make_run (a_name a) (rdef\<lparr>rsize := AUTHOR_AFFIL_PT\<rparr>)
          # author_line_runs AUTHOR_AFFIL_PT (a_lines a))
       (pdef\<lparr>align := ''center'', space_before := 0, space_after := 40\<rparr>)"

definition set_final_section_two_col :: "document \<Rightarrow> document" where
  \<comment> \<open>an existing body-level \<open>w:sectPr\<close> is removed, a fresh one is appended last\<close>
  "set_final_section_two_col doc =
     doc\<lparr>d_sectPr := Some \<lparr>sp_type = Some ''continuous'',
        sp_pgSz = (PAGE_W_TWIPS, PAGE_H_TWIPS), sp_pgMar = page_margins,
        sp_cols_num = 2, sp_cols_space = COL_SPACE_TWIPS, sp_cols_equalWidth = True,
        sp_linePitch = 360\<rparr>\<rparr>"

section \<open>The author block of the builder\<close>

text \<open>
  \<open>range(0, n, step)\<close> as the list of the values the loop variable takes.  The builder
  calls it with \<open>step = min(num_authors, 4)\<close> and \<open>num_authors \<ge> 2\<close>; Python raises for
  \<open>step = 0\<close>, which is the empty list here and never reached.
\<close>

function range_step :: "nat \<Rightarrow> nat \<Rightarrow> nat \<Rightarrow> nat list" where
  "range_step i n step = (if 0 < step \<and> i < n then i # range_step (i + step) n step else [])"
  by pat_completeness auto
termination
  by (relation "measure (\<lambda>(i, n, step). n - i)") auto

declare range_step.simps [simp del]

definition slice :: "nat \<Rightarrow> nat \<Rightarrow> 'a list \<Rightarrow> 'a list" where
  \<comment> \<open>\<open>xs[a:b]\<close> for \<open>0 \<le> a \<le> b\<close>\<close>
  "slice a b xs = take (b - a) (drop a xs)"

text \<open>
  One pass of the loop over the rows: the author paragraphs of the row are appended to the
  body, then the section break is put before the first of them, which sits at the index
  the body had before the row was appended.  A row starts before the end of the list of
  authors, so it is never empty and \<open>author_paras[0]\<close> exists.
\<close>

definition author_row :: "author list \<Rightarrow> nat \<Rightarrow> block list \<Rightarrow> nat \<Rightarrow> block list" where
  "author_row authors max_cols_per_row body row_start =
     (let row_authors = slice row_start (row_start + max_cols_per_row) authors;
          ncols = int (length row_authors);
          author_paras = map make_author_paragraph row_authors;
          first_idx = length body;
          body = body @ map Para author_paras
      in inject_section_break body first_idx ncols AUTHOR_COL_SPACE_TWIPS True)"

fun affil_paragraphs :: "ustr list \<Rightarrow> block list" where
  "affil_paragraphs [] = []"
| "affil_paragraphs (l # ls) =
     Para (make_paragraph [make_run l (rdef\<lparr>rsize := AFFIL_PT, italic := True\<rparr>)]
             (pdef\<lparr>align := ''center'', space_after := 40\<rparr>))
       # affil_paragraphs ls"

definition author_name_para :: "author \<Rightarrow> para_el" where
  "author_name_para a = make_paragraph [make_run (a_name a) (rdef\<lparr>rsize := AUTHOR_PT\<rparr>)]
                         (pdef\<lparr>align := ''center'', space_after := 40\<rparr>)"

definition author_block :: "block list \<Rightarrow> author list \<Rightarrow> block list" where
  "author_block body authors =
     (let num_authors = length authors in
      if num_authors = 0 then body
      else if num_authors = 1 then
        (let author = authors ! 0 in
         body @ [Para (author_name_para author)] @ affil_paragraphs (a_lines author))
      else
        (let max_cols_per_row = min num_authors 4
         in foldl (author_row authors max_cols_per_row) body
                  (range_step 0 num_authors max_cols_per_row)))"

section \<open>What the run of the interpreter fixes\<close>

text \<open>
  Two things the source leaves to the interpreter: the order in which a Python \<open>set\<close> of
  strings is iterated (it changes from run to run), and the table of Unicode decimal
  digits behind \<open>\d\<close> (it changes with the Unicode version).  Both are parameters.
\<close>

record runtime =
  func_order :: "ustr list"      \<comment> \<open>the order \<open>for func in LATEX_FUNCTIONS\<close> visits\<close>
  uni_digit :: "nat \<Rightarrow> bool"     \<comment> \<open>the characters \<open>\d\<close> matches\<close>

section \<open>Regular-expression substitution\<close>

text \<open>
  \<open>re.sub\<close> scans the text from the left; where the pattern matches, the replacement is
  emitted and the scan goes on after the match, on the original text; elsewhere the
  character is copied.  A matcher is given the character before the position (for a
  look-behind) and the text from the position on, and returns the replacement and the text
  after the match.  The counter is the number of characters of the last match still to be
  passed over.  No pattern of the source matches the empty string.
\<close>

type_synonym matcher = "nat option \<Rightarrow> ustr \<Rightarrow> (ustr \<times> ustr) option"

fun re_sub_scan :: "matcher \<Rightarrow> nat \<Rightarrow> nat option \<Rightarrow> ustr \<Rightarrow> ustr" where
  "re_sub_scan m k prev [] = []"
| "re_sub_scan m (Suc k) prev (c # cs) = re_sub_scan m k (Some c) cs"
| "re_sub_scan m 0 prev (c # cs) =
     (case m prev (c # cs) of
        None \<Rightarrow> c # re_sub_scan m 0 (Some c) cs
      | Some (repl, rest) \<Rightarrow> repl @ re_sub_scan m (length cs - length rest) (Some c) cs)"

definition re_sub :: "matcher \<Rightarrow> ustr \<Rightarrow> ustr" where
  "re_sub m s = re_sub_scan m 0 None s"

definition strip_prefix :: "ustr \<Rightarrow> ustr \<Rightarrow> ustr option" where
  "strip_prefix p s = (if prefix p s then Some (drop (length p) s) else None)"

definition match_literal :: "ustr \<Rightarrow> ustr \<Rightarrow> matcher" where
  "match_literal old new prev t =
     (case strip_prefix old t of None \<Rightarrow> None | Some r \<Rightarrow> Some (new, r))"

definition str_replace :: "ustr \<Rightarrow> ustr \<Rightarrow> ustr \<Rightarrow> ustr" where
  \<comment> \<open>\<open>text.replace(old, new)\<close> for a non-empty \<open>old\<close>\<close>
  "str_replace old new s = re_sub (match_literal old new) s"

definition replace_spaces :: "ustr \<Rightarrow> ustr" where
  \<comment> \<open>\<open>text.replace(" ", NBSP)\<close>\<close>
  "replace_spaces s = map (\<lambda>c. if c = 32 then NBSP else c) s"

text \<open>
  \<open>.+?\<close> followed by a literal: the shortest non-empty text without a newline after which
  the literal stands.  Returns the text and what follows the literal.
\<close>

fun lazy_until :: "ustr \<Rightarrow> ustr \<Rightarrow> ustr \<Rightarrow> (ustr \<times> ustr) option" where
  "lazy_until d acc [] = None"
| "lazy_until d acc (c # cs) =
     (if acc \<noteq> [] \<and> prefix d (c # cs) then Some (rev acc, drop (length d) (c # cs))
      else if c = 10 then None
      else lazy_until d (c # acc) cs)"

definition match_delimited :: "ustr \<Rightarrow> matcher" where
  \<comment> \<open>the patterns \<open>D(.+?)D\<close> of \<open>strip_markdown\<close>, replaced by group 1\<close>
  "match_delimited d prev s =
     (case strip_prefix d s of None \<Rightarrow> None | Some r \<Rightarrow> lazy_until d [] r)"

definition strip_markdown :: "ustr \<Rightarrow> ustr" where
  "strip_markdown s =
     (let s = re_sub (match_delimited (u ''**'')) s;
          s = re_sub (match_delimited (u ''*'')) s;
          s = re_sub (match_delimited (u ''`'')) s
      in s)"

section \<open>The transliterator\<close>

definition LATEX_GLYPHS :: "(ustr \<times> ustr) list" where
  "LATEX_GLYPHS = [
    (bsl # u ''alpha'', [0x03B1]), (bsl # u ''beta'', [0x03B2]), (bsl # u ''gamma'', [0x03B3]),
    (bsl # u ''delta'', [0x03B4]), (bsl # u ''epsilon'', [0x03B5]),
    (bsl # u ''varepsilon'', [0x03B5]), (bsl # u ''zeta'', [0x03B6]),
    (bsl # u ''eta'', [0x03B7]), (bsl # u ''theta'', [0x03B8]), (bsl # u ''iota'', [0x03B9]),
    (bsl # u ''kappa'', [0x03BA]), (bsl # u ''lambda'', [0x03BB]), (bsl # u ''mu'', [0x03BC]),
    (bsl # u ''nu'', [0x03BD]), (bsl # u ''xi'', [0x03BE]), (bsl # u ''pi'', [0x03C0]),
    (bsl # u ''rho'', [0x03C1]), (bsl # u ''sigma'', [0x03C3]), (bsl # u ''tau'', [0x03C4]),
    (bsl # u ''upsilon'', [0x03C5]), (bsl # u ''phi'', [0x03C6]),
    (bsl # u ''varphi'', [0x03C6]), (bsl # u ''chi'', [0x03C7]), (bsl # u ''psi'', [0x03C8]),
    (bsl # u ''omega'', [0x03C9]), (bsl # u ''Gamma'', [0x0393]),
    (bsl # u ''Delta'', [0x0394]), (bsl # u ''Theta'', [0x0398]),
    (bsl # u ''Lambda'', [0x039B]), (bsl # u ''Xi'', [0x039E]), (bsl # u ''Pi'', [0x03A0]),
    (bsl # u ''Sigma'', [0x03A3]), (bsl # u ''Phi'', [0x03A6]), (bsl # u ''Psi'', [0x03A8]),
    (bsl # u ''Omega'', [0x03A9]), (bsl # u ''cdot'', [0x00B7]), (bsl # u ''times'', [0x00D7]),
    (bsl # u ''div'', [0x00F7]), (bsl # u ''pm'', [0x00B1]), (bsl # u ''mp'', [0x2213]),
    (bsl # u ''leq'', [0x2264]), (bsl # u ''geq'', [0x2265]), (bsl # u ''neq'', [0x2260]),
    (bsl # u ''approx'', [0x2248]), (bsl # u ''equiv'', [0x2261]), (bsl # u ''sim'', [0x223C]),
    (bsl # u ''propto'', [0x221D]), (bsl # u ''in'', [0x2208]), (bsl # u ''notin'', [0x2209]),
    (bsl # u ''subset'', [0x2282]), (bsl # u ''supset'', [0x2283]),
    (bsl # u ''cup'', [0x222A]), (bsl # u ''cap'', [0x2229]), (bsl # u ''emptyset'', [0x2205]),
    (bsl # u ''infty'', [0x221E]), (bsl # u ''partial'', [0x2202]),
    (bsl # u ''nabla'', [0x2207]), (bsl # u ''forall'', [0x2200]),
    (bsl # u ''exists'', [0x2203]), (bsl # u ''rightarrow'', [0x2192]),
    (bsl # u ''leftarrow'', [0x2190]), (bsl # u ''Rightarrow'', [0x21D2]),
    (bsl # u ''Leftarrow'', [0x21D0]), (bsl # u ''leftrightarrow'', [0x2194]),
    (bsl # u ''Leftrightarrow'', [0x21D4]), (bsl # u ''mapsto'', [0x21A6]),
    (bsl # u ''int'', [0x222B]), (bsl # u ''iint'', [0x222C]), (bsl # u ''iiint'', [0x222D]),
    (bsl # u ''oint'', [0x222E]), (bsl # u ''sum'', [0x2211]), (bsl # u ''prod'', [0x220F]),
    (bsl # u ''ldots'', [0x2026]), (bsl # u ''dots'', [0x2026]), (bsl # u ''cdots'', [0x22EF]),
    (bsl # u ''prime'', [0x2032]), (bsl # u ''neg'', [0x00AC]), (bsl # u ''wedge'', [0x2227]),
    (bsl # u ''vee'', [0x2228]), (bsl # u ''oplus'', [0x2295]), (bsl # u ''otimes'', [0x2297]),
    (bsl # u ''dagger'', [0x2020]), (bsl # u ''ddagger'', [0x2021]),
    (bsl # u ''ell'', [0x2113]), (bsl # u ''hbar'', [0x210F]), (bsl # u ''quad'', [0x2003]),
    (bsl # u ''qquad'', [0x2003, 0x2003])]"

definition LATEX_FUNCTIONS :: "ustr list" where
  \<comment> \<open>the members of the set, in the order the source lists them\<close>
  "LATEX_FUNCTIONS = map (\<lambda>n. bsl # u n)
     [''tanh'', ''cosh'', ''sinh'', ''sin'', ''cos'', ''tan'', ''log'', ''ln'', ''exp'',
      ''lim'', ''max'', ''min'', ''sup'', ''inf'', ''det'', ''dim'', ''ker'', ''arg'',
      ''deg'', ''gcd'', ''hom'', ''sec'', ''csc'', ''cot'', ''arcsin'', ''arccos'', ''arctan'']"

definition MATHBB :: "(nat \<times> nat) list" where
  "MATHBB = [(65, 0x1D538), (66, 0x1D539), (67, 0x2102), (68, 0x1D53B), (69, 0x1D53C),
     (70, 0x1D53D), (71, 0x1D53E), (72, 0x210D), (73, 0x1D540), (74, 0x1D541), (75, 0x1D542),
     (76, 0x1D543), (77, 0x1D544), (78, 0x2115), (79, 0x1D546), (80, 0x2119), (81, 0x211A),
     (82, 0x211D), (83, 0x1D54A), (84, 0x1D54B), (85, 0x1D54C), (86, 0x1D54D), (87, 0x1D54E),
     (88, 0x1D54F), (89, 0x1D550), (90, 0x2124)]"

definition match_double_backslash :: matcher where
  \<comment> \<open>two backslashes and a letter become one backslash and the letter\<close>
  "match_double_backslash prev s =
     (case s of a # b # c # r \<Rightarrow>
        (if a = bsl \<and> b = bsl \<and> is_alpha c then Some ([bsl, c], r) else None)
      | _ \<Rightarrow> None)"

definition match_text :: matcher where
  \<comment> \<open>backslash \<open>text{\<close>, then \<open>([^}]*)\<close>, then \<open>}\<close>; replaced by the group\<close>
  "match_text prev s =
     (case strip_prefix (bsl # u ''text{'') s of None \<Rightarrow> None
      | Some r \<Rightarrow> (case dropWhile (\<lambda>c. c \<noteq> 125) r of [] \<Rightarrow> None
                  | c # r' \<Rightarrow> Some (takeWhile (\<lambda>c. c \<noteq> 125) r, r')))"

definition mathbb_replace :: "nat \<Rightarrow> ustr" where
  \<comment> \<open>\<open>_MATHBB.get(char, char)\<close>\<close>
  "mathbb_replace c = (case map_of MATHBB c of None \<Rightarrow> [c] | Some g \<Rightarrow> [g])"

definition match_mathbb :: matcher where
  \<comment> \<open>backslash \<open>mathbb{\<close>, then \<open>([A-Z])\<close>, then \<open>}\<close>\<close>
  "match_mathbb prev s =
     (case strip_prefix (bsl # u ''mathbb{'') s of None \<Rightarrow> None
      | Some r \<Rightarrow> (case r of c # d # r' \<Rightarrow>
                    (if is_upper c \<and> d = 125 then Some (mathbb_replace c, r') else None)
                  | _ \<Rightarrow> None))"

text \<open>
  The argument of a fraction, \<open>((?:[^{}]|\{[^{}]*\})*)\<close>: a sequence of characters other
  than braces and of brace groups without braces inside, as long as it goes.  Each item
  is fixed by its first character and the pattern goes on with \<open>}\<close>, which starts no item,
  so the longest sequence is the only one the pattern can use.
\<close>

definition not_brace :: "nat \<Rightarrow> bool" where
  "not_brace c = (c \<noteq> 123 \<and> c \<noteq> 125)"

definition brace_group :: "ustr \<Rightarrow> (ustr \<times> ustr) option" where
  \<comment> \<open>after \<open>{\<close>: \<open>[^{}]*\<close> and \<open>}\<close>; the inside and the text after the group\<close>
  "brace_group s = (case dropWhile not_brace s of [] \<Rightarrow> None
     | c # r \<Rightarrow> if c = 125 then Some (takeWhile not_brace s, r) else None)"

function frac_arg :: "ustr \<Rightarrow> ustr \<times> ustr" where
  "frac_arg [] = ([], [])"
| "frac_arg (c # cs) =
     (if c = 125 then ([], c # cs)
      else if c = 123 then
        (case brace_group cs of None \<Rightarrow> ([], c # cs)
         | Some (g, r) \<Rightarrow> (case frac_arg r of (a, r') \<Rightarrow> (123 # g @ 125 # a, r')))
      else (case frac_arg cs of (a, r') \<Rightarrow> (c # a, r')))"
  by pat_completeness auto
termination
proof (relation "measure length")
  fix c :: nat and cs x2 g r
  assume "brace_group cs = Some x2" and "(g, r) = x2"
  then have "dropWhile not_brace cs = 125 # r"
    by (auto simp: brace_group_def split: list.splits if_splits)
  then have "length (dropWhile not_brace cs) = Suc (length r)" by simp
  moreover have "length (dropWhile not_brace cs) \<le> length cs"
    by (rule length_dropWhile_le)
  ultimately show "(r, c # cs) \<in> measure length" by simp
qed auto

definition match_frac :: matcher where
  "match_frac prev s =
     (case strip_prefix (bsl # u ''frac{'') s of None \<Rightarrow> None
      | Some s1 \<Rightarrow> (case frac_arg s1 of (a, r1) \<Rightarrow>
          (case strip_prefix (u ''}{'') r1 of None \<Rightarrow> None
           | Some r2 \<Rightarrow> (case frac_arg r2 of (b, r3) \<Rightarrow>
               (case strip_prefix (u ''}'') r3 of None \<Rightarrow> None
                | Some r4 \<Rightarrow> Some (u ''('' @ a @ u '')/('' @ b @ u '')'', r4))))))"

definition match_func :: "ustr \<Rightarrow> matcher" where
  \<comment> \<open>the function command, not followed by a letter; replaced by \<open>func[1:]\<close>\<close>
  "match_func func prev s =
     (case strip_prefix func s of None \<Rightarrow> None
      | Some r \<Rightarrow> (if r \<noteq> [] \<and> is_alpha (hd r) then None else Some (drop 1 func, r)))"

definition sorted_glyphs :: "(ustr \<times> ustr) list" where
  \<comment> \<open>\<open>sorted(LATEX_GLYPHS.keys(), key=len, reverse=True)\<close>, each key with its glyph:
      longest first, keys of one length in the order of the dictionary\<close>
  "sorted_glyphs = sort_key (\<lambda>(cmd, g). - int (length cmd)) LATEX_GLYPHS"

definition resolve_latex_commands :: "runtime \<Rightarrow> ustr \<Rightarrow> ustr" where
  "resolve_latex_commands E s =
     (let s = re_sub match_double_backslash s;
          s = re_sub match_text s;
          s = re_sub match_mathbb s;
          s = re_sub match_frac s;
          s = foldl (\<lambda>t func. re_sub (match_func func) t) s (func_order E);
          s = foldl (\<lambda>t (cmd, g). str_replace cmd g t) s sorted_glyphs
      in s)"

text \<open>
  The inline span \<open>(?<!\$)\$(?!\$)(.+?)(?<!\$)\$(?!\$)\<close>: after the opening dollar, the
  closing one is the first dollar that has at least one character of the span before it,
  no dollar before it and none after it; the span holds no newline.
\<close>

fun inline_close :: "ustr \<Rightarrow> ustr \<Rightarrow> (ustr \<times> ustr) option" where
  "inline_close acc [] = None"
| "inline_close acc (c # cs) =
     (if c = 36 \<and> acc \<noteq> [] \<and> hd acc \<noteq> 36 \<and> (cs = [] \<or> hd cs \<noteq> 36) then Some (rev acc, cs)
      else if c = 10 then None
      else inline_close (c # acc) cs)"

definition resolve_inline_math :: "runtime \<Rightarrow> ustr \<Rightarrow> ustr" where
  "resolve_inline_math E inner = replace_spaces (resolve_latex_commands E inner)"

definition match_inline_math :: "runtime \<Rightarrow> matcher" where
  "match_inline_math E prev s =
     (case s of [] \<Rightarrow> None
      | c # r \<Rightarrow>
         (if c = 36 \<and> prev \<noteq> Some 36 \<and> r \<noteq> [] \<and> hd r \<noteq> 36 then
            (case inline_close [] r of None \<Rightarrow> None
             | Some (inner, rest) \<Rightarrow> Some (resolve_inline_math E inner, rest))
          else None))"

definition resolve_latex :: "runtime \<Rightarrow> ustr \<Rightarrow> ustr" where
  "resolve_latex E s =
     (let s = re_sub match_double_backslash s;
          s = re_sub (match_inline_math E) s;
          s = resolve_latex_commands E s
      in s)"

section \<open>Splitting into plain, subscript and superscript runs\<close>

definition match_script :: "ustr \<Rightarrow> (nat \<times> ustr \<times> ustr) option" where
  \<comment> \<open>\<open>([_^])\{([^}]*)\}|([_^])([^\s{}_^])\<close>: the marker, the content, the text after\<close>
  "match_script s =
     (case s of m # c # r \<Rightarrow>
        (if m = 95 \<or> m = 94 then
           (if c = 123 then
              (case dropWhile (\<lambda>x. x \<noteq> 125) r of [] \<Rightarrow> None
               | x # r' \<Rightarrow> Some (m, takeWhile (\<lambda>x. x \<noteq> 125) r, r'))
            else if \<not> is_space c \<and> c \<noteq> 125 \<and> c \<noteq> 95 \<and> c \<noteq> 94 then Some (m, [c], r)
            else None)
         else None)
      | _ \<Rightarrow> None)"

text \<open>
  The loop over \<open>pattern.finditer(text)\<close>: \<open>pend\<close> is the text since the end of the last
  match (reversed), the counter the characters of the last match still to pass.
\<close>

fun math_runs :: "rargs \<Rightarrow> ustr \<Rightarrow> nat \<Rightarrow> ustr \<Rightarrow> run list" where
  "math_runs base pend k [] = (if pend \<noteq> [] then [make_run (rev pend) base] else [])"
| "math_runs base pend (Suc k) (c # cs) = math_runs base pend k cs"
| "math_runs base pend 0 (c # cs) =
     (case match_script (c # cs) of
        None \<Rightarrow> math_runs base (c # pend) 0 cs
      | Some (marker, content, rest) \<Rightarrow>
          (if pend \<noteq> [] then [make_run (rev pend) base] else [])
          @ make_run content (base\<lparr>subscript := (marker = 95), superscript := (marker \<noteq> 95)\<rparr>)
          # math_runs base [] (length cs - length rest) cs)"

definition parse_math_text :: "runtime \<Rightarrow> ustr \<Rightarrow> rargs \<Rightarrow> run list" where
  "parse_math_text E txt a =
     (let txt = resolve_latex E txt;
          base = rdef\<lparr>rsize := rsize a, bold := bold a, italic := italic a, font := font a\<rparr>;
          runs = math_runs base [] 0 txt
      in if runs = [] then [make_run txt base] else runs)"

section \<open>Numbers as text\<close>

datatype error = ValueError | OSError

function digits_of :: "nat \<Rightarrow> ustr" where
  "digits_of n = (if n < 10 then [48 + n] else digits_of (n div 10) @ [48 + n mod 10])"
  by pat_completeness auto
termination
  by (relation "measure id") auto

declare digits_of.simps [simp del]

definition py_str :: "int \<Rightarrow> ustr" where
  \<comment> \<open>\<open>str(i)\<close> of an integer\<close>
  "py_str i = (if i < 0 then 45 # digits_of (nat (- i)) else digits_of (nat i))"

definition py_chr :: "int \<Rightarrow> error + ustr" where
  \<comment> \<open>\<open>chr(i)\<close> raises \<open>ValueError\<close> outside \<open>range(0x110000)\<close>\<close>
  "py_chr i = (if 0 \<le> i \<and> i < 0x110000 then Inr [nat i] else Inl ValueError)"

definition roman_vals :: "(int \<times> ustr) list" where
  "roman_vals = [(1000, u ''M''), (900, u ''CM''), (500, u ''D''), (400, u ''CD''),
                 (100, u ''C''), (90, u ''XC''), (50, u ''L''), (40, u ''XL''),
                 (10, u ''X''), (9, u ''IX''), (5, u ''V''), (4, u ''IV''), (1, u ''I'')]"

text \<open>
  The \<open>for\<close> loop over the table with its inner \<open>while\<close>: \<open>i\<close> is the index of the entry
  the loop is at.
\<close>

function to_roman_loop :: "nat \<Rightarrow> int \<Rightarrow> ustr \<Rightarrow> ustr" where
  "to_roman_loop i n result =
     (if i < length roman_vals then
        (if n \<ge> fst (roman_vals ! i)
         then to_roman_loop i (n - fst (roman_vals ! i)) (result @ snd (roman_vals ! i))
         else to_roman_loop (Suc i) n result)
      else result)"
  by pat_completeness auto
termination
proof (relation "measures [\<lambda>(i, n, r). length roman_vals - i, \<lambda>(i, n, r). nat n]")
  fix i :: nat and n :: int and result :: ustr
  assume i: "i < length roman_vals" and n: "fst (roman_vals ! i) \<le> n"
  have "\<forall>p \<in> set roman_vals. 0 < fst p"
    by (simp add: roman_vals_def)
  with i have "0 < fst (roman_vals ! i)"
    using nth_mem by blast
  with n show "((i, n - fst (roman_vals ! i), result @ snd (roman_vals ! i)), (i, n, result))
      \<in> measures [\<lambda>(i, n, r). length roman_vals - i, \<lambda>(i, n, r). nat n]"
    by simp
qed auto

declare to_roman_loop.simps [simp del]

definition to_roman :: "int \<Rightarrow> ustr" where
  "to_roman n = to_roman_loop 0 n []"

definition to_letter :: "int \<Rightarrow> error + ustr" where
  "to_letter n = py_chr (64 + n)"

section \<open>The builder\<close>

definition strip_numbering :: "ustr \<Rightarrow> ustr" where
  \<comment> \<open>\<open>re.sub(r"^[A-Za-z0-9]+\.\s*", "", heading)\<close>: the pattern can match at the start
      only, the run of letters and digits is followed by the period or by nothing the
      pattern accepts\<close>
  "strip_numbering h =
     (let tok = takeWhile is_alnum h; r = dropWhile is_alnum h
      in if tok \<noteq> [] \<and> r \<noteq> [] \<and> hd r = 46 then dropWhile is_space (tl r) else h)"

definition heading1_para :: "ustr \<Rightarrow> para_el" where
  "heading1_para display =
     make_paragraph [make_run display (rdef\<lparr>rsize := H1_PT, small_caps := True\<rparr>)]
       (pdef\<lparr>align := ''center'', space_before := 160, space_after := 80, keep_next := True\<rparr>)"

definition heading2_para :: "ustr \<Rightarrow> para_el" where
  "heading2_para display =
     make_paragraph [make_run display (rdef\<lparr>rsize := H2_PT, italic := True\<rparr>)]
       (pdef\<lparr>align := ''left'', space_before := 120, space_after := 60, keep_next := True\<rparr>)"

definition section_heading :: "section_rec \<Rightarrow> error + block list" where
  \<comment> \<open>the paragraph the loop appends for the heading of a section; none for a level
      other than 1 and 2\<close>
  "section_heading sec =
     (if s_level sec = 1 then
        (let heading = strip_numbering (s_heading sec);
             display = to_roman (s_number sec) @ u ''. '' @ heading
         in Inr [Para (heading1_para display)])
      else if s_level sec = 2 then
        (let heading = strip_numbering (s_heading sec)
         in case to_letter (s_number sec) of Inl e \<Rightarrow> Inl e
            | Inr letter \<Rightarrow> Inr [Para (heading2_para (letter @ u ''. '' @ heading))])
      else Inr [])"

definition equation_para :: "runtime \<Rightarrow> ustr \<Rightarrow> int \<Rightarrow> para_el" where
  \<comment> \<open>the paragraph of a display equation, \<open>n\<close> the counter after its increment\<close>
  "equation_para E body n =
     (let eq_text = strip_markdown body;
          eq_text = resolve_latex E eq_text;
          eq_text = replace_spaces eq_text
      in make_paragraph
           ([TabRun] @ parse_math_text E eq_text (rdef\<lparr>rsize := BODY_PT\<rparr>)
            @ [TabRun, make_run (u ''('' @ py_str n @ u '')'') (rdef\<lparr>rsize := BODY_PT\<rparr>)])
           (pdef\<lparr>align := ''left'', space_before := 240, space_after := 240,
                 tab_stops := [(2520, ''center''), (5040, ''end'')]\<rparr>))"

text \<open>
  \<open>^(\d+)\.\s+\*\*(.+?)\*\*\s*(.*)\<close> under \<open>re.match\<close>: the digits, the label and the
  rest.  The rest is what follows the white space after the label, up to a newline.  No
  decimal digit is a period, a bracket or white space, so the run of digits the pattern
  takes is the longest one.
\<close>

definition rest_of_line :: "ustr \<Rightarrow> ustr" where
  \<comment> \<open>\<open>\s*(.*)\<close>\<close>
  "rest_of_line r = takeWhile (\<lambda>c. c \<noteq> 10) (dropWhile is_space r)"

definition bold_match :: "ustr \<Rightarrow> (ustr \<times> ustr) option" where
  \<comment> \<open>\<open>^\*\*(.+?)\*\*\s*(.*)\<close>\<close>
  "bold_match s =
     (case strip_prefix (u ''**'') s of None \<Rightarrow> None
      | Some r \<Rightarrow> (case lazy_until (u ''**'') [] r of None \<Rightarrow> None
                  | Some (label, r') \<Rightarrow> Some (label, rest_of_line r')))"

definition list_match :: "runtime \<Rightarrow> ustr \<Rightarrow> (ustr \<times> ustr \<times> ustr) option" where
  "list_match E s =
     (let num = takeWhile (uni_digit E) s; r = dropWhile (uni_digit E) s
      in if num = [] \<or> r = [] \<or> hd r \<noteq> 46 then None
         else (let ws = takeWhile is_space (tl r); r1 = dropWhile is_space (tl r)
               in if ws = [] then None
                  else (case bold_match r1 of None \<Rightarrow> None
                        | Some (label, rest) \<Rightarrow> Some (num, label, rest))))"

definition bullet_run :: run where
  "bullet_run = BulletRun \<lparr>r_font = FONT, r_sz = BODY_PT * 2, r_b = False, r_i = False,
     r_smallCaps = False, r_vertAlign = [], r_t = [BULLET]\<rparr>"

definition is_bullet_marker :: "nat \<Rightarrow> bool" where  \<comment> \<open>the class \<open>[-*]\<close>\<close>
  "is_bullet_marker c = (c = 45 \<or> c = 42)"

definition render_text :: "runtime \<Rightarrow> ustr \<Rightarrow> block list" where
  \<comment> \<open>what the loop appends for a content item that is a string; the lengths
      \<open>int(Inches(0.2))\<close> and \<open>int(Inches(0.25))\<close> are 182880 and 228600\<close>
  "render_text E para_text =
     (if prefix (u ''> '') para_text then
        [Para (make_paragraph
           (parse_math_text E (strip_markdown (drop 2 para_text))
              (rdef\<lparr>rsize := BODY_PT, italic := True\<rparr>))
           (pdef\<lparr>align := ''justify'', space_after := 120, left_indent := Some 182880\<rparr>))]
      else case list_match E para_text of
        Some (num, label, rest) \<Rightarrow>
          [Para (make_paragraph
             [make_run (num @ u ''. '') (rdef\<lparr>rsize := BODY_PT\<rparr>),
              make_run (label @ u '' '') (rdef\<lparr>rsize := BODY_PT, bold := True\<rparr>),
              make_run (strip_markdown rest) (rdef\<lparr>rsize := BODY_PT\<rparr>)]
             (pdef\<lparr>align := ''justify'', space_after := 120, left_indent := Some 228600,
                   hanging := Some 228600\<rparr>))]
      | None \<Rightarrow>
         (case (case bold_match para_text of None \<Rightarrow> None
                | Some (label, rest) \<Rightarrow> if rest \<noteq> [] then Some (label, rest) else None) of
            Some (label, rest) \<Rightarrow>
              [Para (make_paragraph
                 ([make_run (label @ u '' '') (rdef\<lparr>rsize := BODY_PT, bold := True\<rparr>)]
                  @ parse_math_text E (strip_markdown rest) (rdef\<lparr>rsize := BODY_PT\<rparr>))
                 (pdef\<lparr>align := ''justify'', space_after := 120,
                       first_indent := Some BODY_FIRST_INDENT\<rparr>))]
          | None \<Rightarrow>
             (if length para_text \<ge> 2 \<and> is_bullet_marker (para_text ! 0)
                 \<and> is_space (para_text ! 1) then
                (let item = strip_markdown (dropWhile is_space (drop 1 para_text))
                 in [Para (make_paragraph
                       ([bullet_run, TabRun] @ parse_math_text E item (rdef\<lparr>rsize := BODY_PT\<rparr>))
                       (pdef\<lparr>align := ''justify'', space_after := 40, left_indent := Some 576,
                             hanging := Some 288, line_spacing := Some 228\<rparr>))])
              else
                (let cleaned = strip_markdown para_text
                 in if dropWhile is_space cleaned = [] then []
                    else [Para (make_paragraph
                            (parse_math_text E cleaned (rdef\<lparr>rsize := BODY_PT\<rparr>))
                            (pdef\<lparr>align := ''justify'', space_after := 120,
                                  first_indent := Some BODY_FIRST_INDENT,
                                  line_spacing := Some 228\<rparr>))]))))"

text \<open>
  The loop over the content of a section threads the body and the equation counter; the
  loop over the sections threads them on.
\<close>

fun render_content :: "runtime \<Rightarrow> block list \<Rightarrow> int \<Rightarrow> content_item list \<Rightarrow> block list \<times> int" where
  "render_content E body equation_counter [] = (body, equation_counter)"
| "render_content E body equation_counter (Equation b # items) =
     render_content E (body @ [Para (equation_para E b (equation_counter + 1))])
       (equation_counter + 1) items"
| "render_content E body equation_counter (PlainText t # items) =
     render_content E (body @ render_text E t) equation_counter items"

fun build_sections :: "runtime \<Rightarrow> block list \<Rightarrow> int \<Rightarrow> section_rec list
    \<Rightarrow> error + (block list \<times> int)" where
  "build_sections E body equation_counter [] = Inr (body, equation_counter)"
| "build_sections E body equation_counter (sec # secs) =
     (case section_heading sec of Inl e \<Rightarrow> Inl e
      | Inr hs \<Rightarrow>
         (case render_content E (body @ hs) equation_counter (s_content sec) of
            (body', equation_counter') \<Rightarrow> build_sections E body' equation_counter' secs))"

fun join_space :: "ustr list \<Rightarrow> ustr" where  \<comment> \<open>\<open>" ".join(xs)\<close>\<close>
  "join_space [] = []"
| "join_space [x] = x"
| "join_space (x # y # ys) = x @ 32 # join_space (y # ys)"

definition abstract_para :: "runtime \<Rightarrow> parsed \<Rightarrow> para_el" where
  "abstract_para E parsed =
     (let abstract_text = strip_markdown (join_space (p_abstract parsed));
          abstract_runs =
            [make_run (u ''Abstract'') (rdef\<lparr>rsize := ABSTRACT_PT, bold := True, italic := True\<rparr>),
             make_run [EM_DASH] (rdef\<lparr>rsize := ABSTRACT_PT, bold := True\<rparr>)]
            @ parse_math_text E abstract_text (rdef\<lparr>rsize := ABSTRACT_PT, bold := True\<rparr>)
      in make_paragraph abstract_runs
           (pdef\<lparr>align := ''justify'', space_before := 360, space_after := 200,
                 first_indent := Some ABSTRACT_FIRST_INDENT\<rparr>))"

definition keywords_para :: "ustr \<Rightarrow> para_el" where
  "keywords_para kw =
     make_paragraph
       [make_run (u ''Keywords'' @ [EM_DASH])
          (rdef\<lparr>rsize := KEYWORDS_PT, bold := True, italic := True\<rparr>),
        make_run kw (rdef\<lparr>rsize := KEYWORDS_PT, bold := True, italic := True\<rparr>)]
       (pdef\<lparr>align := ''justify'', space_after := 120,
             first_indent := Some KEYWORDS_FIRST_INDENT\<rparr>)"

fun reference_paras :: "nat \<Rightarrow> ustr list \<Rightarrow> block list" where
  \<comment> \<open>\<open>for i, ref_text in enumerate(...)\<close>, from index \<open>i\<close> on\<close>
  "reference_paras i [] = []"
| "reference_paras i (ref_text # refs) =
     Para (make_paragraph
        [make_run (u ''['' @ py_str (int i + 1) @ u '']'' @ [NBSP]) (rdef\<lparr>rsize := REF_PT\<rparr>),
         make_run (strip_markdown ref_text) (rdef\<lparr>rsize := REF_PT\<rparr>)]
        (pdef\<lparr>align := ''justify'', space_after := 50, left_indent := Some REF_INDENT_TWIPS,
              hanging := Some REF_INDENT_TWIPS, line_spacing := Some 180, line_rule := ''exact''\<rparr>))
       # reference_paras (Suc i) refs"

definition title_para :: "parsed \<Rightarrow> para_el" where
  "title_para p = make_paragraph [make_run (p_title p) (rdef\<lparr>rsize := TITLE_PT\<rparr>)]
     (pdef\<lparr>align := ''center'', space_after := 120\<rparr>)"

definition references_heading_para :: para_el where
  "references_heading_para =
     make_paragraph [make_run (u ''References'') (rdef\<lparr>rsize := H1_PT, small_caps := True\<rparr>)]
       (pdef\<lparr>align := ''center'', space_before := 200, space_after := 80\<rparr>)"

text \<open>
  \<open>build_document\<close>.  \<open>doc0\<close> is the document \<open>Document()\<close> returns; its settings and
  styles, which the builder also touches, are not part of the model.  Every child of the
  body that is a paragraph is removed first, and paragraphs are all the children the model
  has.  The index of the abstract paragraph is the length the body had before it was
  appended.
\<close>

definition build_document :: "runtime \<Rightarrow> document \<Rightarrow> parsed \<Rightarrow> error + document" where
  "build_document E doc0 parsed =
     (let body = filter (\<lambda>b. False) (d_body doc0);
          body = body @ [Para (title_para parsed)];
          body = author_block body (p_authors parsed);
          abstract_idx = length body;
          body = body @ [Para (abstract_para E parsed)];
          body = inject_continuous_two_col_section_break body abstract_idx;
          body = (if p_keywords parsed \<noteq> [] then body @ [Para (keywords_para (p_keywords parsed))]
                  else body)
      in case build_sections E body 0 (p_sections parsed) of Inl e \<Rightarrow> Inl e
         | Inr (body, equation_counter) \<Rightarrow>
            (let body = body @ [Para references_heading_para];
                 body = body @ reference_paras 0 (p_references parsed)
             in Inr (set_final_section_two_col (doc0\<lparr>d_body := body\<rparr>))))"

section \<open>The markdown parser\<close>

definition strip :: "ustr \<Rightarrow> ustr" where  \<comment> \<open>\<open>s.strip()\<close>\<close>
  "strip s = rev (dropWhile is_space (rev (dropWhile is_space s)))"

definition rstrip_newline :: "ustr \<Rightarrow> ustr" where  \<comment> \<open>\<open>s.rstrip("\n")\<close>\<close>
  "rstrip_newline s = rev (dropWhile (\<lambda>c. c = 10) (rev s))"

definition at_end :: "ustr \<Rightarrow> bool" where
  \<comment> \<open>\<open>$\<close>: the end of the text, or the newline that ends it\<close>
  "at_end r = (r = [] \<or> r = [10])"

definition ci_char :: "char \<Rightarrow> nat \<Rightarrow> bool" where
  \<comment> \<open>a lower-case ASCII letter of a pattern under \<open>re.IGNORECASE\<close>: the letter, its
      capital, and for \<open>s\<close> and \<open>k\<close> the long s (U+017F) and the Kelvin sign (U+212A)\<close>
  "ci_char p c = (c = of_char p \<or> c + 32 = of_char p
      \<or> (p = CHR ''s'' \<and> c = 0x17F) \<or> (p = CHR ''k'' \<and> c = 0x212A))"

fun ci_prefix :: "string \<Rightarrow> ustr \<Rightarrow> bool" where
  "ci_prefix [] s = True"
| "ci_prefix (p # ps) [] = False"
| "ci_prefix (p # ps) (c # cs) = (ci_char p c \<and> ci_prefix ps cs)"

definition heading_named :: "string \<Rightarrow> ustr \<Rightarrow> bool" where
  \<comment> \<open>\<open>re.match(r"^##\s+Word", trimmed, re.IGNORECASE)\<close>, the word given in lower case\<close>
  "heading_named w t =
     (case strip_prefix (u ''##'') t of None \<Rightarrow> False
      | Some r \<Rightarrow> takeWhile is_space r \<noteq> [] \<and> ci_prefix w (dropWhile is_space r))"

definition is_rule :: "ustr \<Rightarrow> bool" where  \<comment> \<open>\<open>^---+$\<close>\<close>
  "is_rule t = (length (takeWhile (\<lambda>c. c = 45) t) \<ge> 3 \<and> at_end (dropWhile (\<lambda>c. c = 45) t))"

definition is_h2_any :: "ustr \<Rightarrow> bool" where  \<comment> \<open>\<open>^##\s\<close>\<close>
  "is_h2_any t = (case strip_prefix (u ''##'') t of None \<Rightarrow> False
     | Some r \<Rightarrow> r \<noteq> [] \<and> is_space (hd r))"

definition ref_number :: "runtime \<Rightarrow> ustr \<Rightarrow> ustr option" where
  \<comment> \<open>\<open>^\[\d+\]\<close>: what follows the bracketed number\<close>
  "ref_number E t =
     (case strip_prefix (u ''['') t of None \<Rightarrow> None
      | Some r \<Rightarrow> if takeWhile (uni_digit E) r = [] then None
                  else strip_prefix (u '']'') (dropWhile (uni_digit E) r))"

definition ref_match :: "runtime \<Rightarrow> ustr \<Rightarrow> ustr option" where
  \<comment> \<open>\<open>^\[(\d+)\]\s*(.*)\<close>: group 2\<close>
  "ref_match E t = (case ref_number E t of None \<Rightarrow> None | Some r \<Rightarrow> Some (rest_of_line r))"

definition is_continuation :: "runtime \<Rightarrow> ustr \<Rightarrow> bool" where
  \<comment> \<open>the condition of the inner \<open>while\<close> on the next line\<close>
  "is_continuation E l = (strip l \<noteq> [] \<and> ref_number E (strip l) = None)"

text \<open>
  \<open>D(.+?)D\<close> followed by a condition on the rest of the text (\<open>\s*$\<close> or \<open>$\<close>): the
  shortest non-empty text without a newline after which the literal stands and the
  condition holds.
\<close>

fun lazy_until_where :: "ustr \<Rightarrow> (ustr \<Rightarrow> bool) \<Rightarrow> ustr \<Rightarrow> ustr \<Rightarrow> ustr option" where
  "lazy_until_where d ok acc [] = None"
| "lazy_until_where d ok acc (c # cs) =
     (if acc \<noteq> [] \<and> prefix d (c # cs) \<and> ok (drop (length d) (c # cs)) then Some (rev acc)
      else if c = 10 then None
      else lazy_until_where d ok (c # acc) cs)"

definition enclosed :: "ustr \<Rightarrow> (ustr \<Rightarrow> bool) \<Rightarrow> ustr \<Rightarrow> ustr option" where
  "enclosed d ok t = (case strip_prefix d t of None \<Rightarrow> None
     | Some r \<Rightarrow> lazy_until_where d ok [] r)"

definition author_name_match :: "ustr \<Rightarrow> ustr option" where  \<comment> \<open>\<open>^\*\*(.+?)\*\*\s*$\<close>\<close>
  "author_name_match t = enclosed (u ''**'') (\<lambda>r. dropWhile is_space r = []) t"

definition author_line_match :: "ustr \<Rightarrow> ustr option" where  \<comment> \<open>\<open>^\*(.+?)\*\s*$\<close>\<close>
  "author_line_match t = enclosed (u ''*'') (\<lambda>r. dropWhile is_space r = []) t"

definition eq_match :: "ustr \<Rightarrow> ustr option" where  \<comment> \<open>\<open>^\$\$(.+?)\$\$$\<close>\<close>
  "eq_match t = enclosed (u ''$$'') at_end t"

text \<open>
  The variables of the loop.  \<open>current_section\<close> is \<open>None\<close> or the dictionary that was
  appended to the sections last; it is kept as the index of that section, and appending to
  its content updates the list of sections there.
\<close>

record parser =
  result :: parsed
  state :: string
  in_references :: bool
  current_section :: "nat option"
  h1_count :: int
  h2_count :: int

definition add_section :: "parser \<Rightarrow> int \<Rightarrow> ustr \<Rightarrow> int \<Rightarrow> parser" where
  "add_section st lvl heading n =
     st\<lparr>result := (result st)\<lparr>p_sections := p_sections (result st)
           @ [\<lparr>s_level = lvl, s_heading = heading, s_number = n, s_content = []\<rparr>]\<rparr>,
        current_section := Some (length (p_sections (result st)))\<rparr>"

definition add_content :: "parser \<Rightarrow> nat \<Rightarrow> content_item \<Rightarrow> parser" where
  "add_content st i item =
     st\<lparr>result := (result st)\<lparr>p_sections := (p_sections (result st))
           [i := (p_sections (result st) ! i)
              \<lparr>s_content := s_content (p_sections (result st) ! i) @ [item]\<rparr>]\<rparr>\<rparr>"

definition add_author_line :: "author list \<Rightarrow> ustr \<Rightarrow> author list" where
  \<comment> \<open>\<open>authors[-1]["lines"].append(x)\<close> on a non-empty list\<close>
  "add_author_line as x = butlast as @ [(last as)\<lparr>a_lines := a_lines (last as) @ [x]\<rparr>]"

text \<open>
  The branches of the loop body.  \<open>Inl\<close> is a \<open>continue\<close> with the new variables, \<open>Inr\<close>
  falls through to the checks below.
\<close>

definition post_title_line :: "parser \<Rightarrow> ustr \<Rightarrow> parser + parser" where
  "post_title_line st trimmed =
     (if is_rule trimmed then Inl st
      else if trimmed = [] then Inl st
      else case author_name_match trimmed of
        Some name \<Rightarrow> Inl (st\<lparr>result := (result st)\<lparr>p_authors := p_authors (result st)
                            @ [\<lparr>a_name = strip name, a_lines = []\<rparr>]\<rparr>\<rparr>)
      | None \<Rightarrow>
         (case author_line_match trimmed of
            Some l \<Rightarrow> if p_authors (result st) \<noteq> []
                      then Inl (st\<lparr>result := (result st)\<lparr>p_authors :=
                                  add_author_line (p_authors (result st)) (strip l)\<rparr>\<rparr>)
                      else Inr st
          | None \<Rightarrow> Inr st))"

definition abstract_line :: "parser \<Rightarrow> ustr \<Rightarrow> parser + parser" where
  "abstract_line st trimmed =
     (if trimmed = [] \<or> is_rule trimmed then Inl st
      else if is_h2_any trimmed then Inr (st\<lparr>state := ''body''\<rparr>)
      else Inl (st\<lparr>result := (result st)\<lparr>p_abstract := p_abstract (result st) @ [trimmed]\<rparr>\<rparr>))"

definition keywords_line :: "parser \<Rightarrow> ustr \<Rightarrow> parser + parser" where
  "keywords_line st trimmed =
     (if trimmed = [] \<or> is_rule trimmed then Inl st
      else if is_h2_any trimmed then Inr (st\<lparr>state := ''body''\<rparr>)
      else Inl (st\<lparr>result := (result st)\<lparr>p_keywords := strip_markdown trimmed\<rparr>\<rparr>))"

definition body_line :: "parser \<Rightarrow> ustr \<Rightarrow> parser" where
  \<comment> \<open>from the check for a horizontal rule in the body to the end of the loop body\<close>
  "body_line st trimmed =
     (if is_rule trimmed then st
      else if prefix (u ''## '') trimmed then
        (let st = st\<lparr>state := ''body''\<rparr>;
             heading = strip (drop 3 trimmed);
             st = st\<lparr>h1_count := h1_count st + 1\<rparr>;
             st = st\<lparr>h2_count := 0\<rparr>
         in add_section st 1 heading (h1_count st))
      else if prefix (u ''### '') trimmed then
        (let heading = strip (drop 4 trimmed);
             st = st\<lparr>h2_count := h2_count st + 1\<rparr>
         in add_section st 2 heading (h2_count st))
      else case current_section st of
        None \<Rightarrow> st
      | Some i \<Rightarrow>
         (if state st = ''body'' \<and> trimmed \<noteq> [] then
            (case eq_match trimmed of
               Some body \<Rightarrow> add_content st i (Equation body)
             | None \<Rightarrow> add_content st i (PlainText trimmed))
          else st))"

definition after_title :: "parser \<Rightarrow> ustr \<Rightarrow> parser" where
  \<comment> \<open>from the check for the abstract heading on\<close>
  "after_title st trimmed =
     (if heading_named ''abstract'' trimmed then st\<lparr>state := ''abstract'', current_section := None\<rparr>
      else case (if state st = ''abstract'' then abstract_line st trimmed else Inr st) of
        Inl st \<Rightarrow> st
      | Inr st \<Rightarrow>
         (if heading_named ''keywords'' trimmed
          then st\<lparr>state := ''keywords'', current_section := None\<rparr>
          else case (if state st = ''keywords'' then keywords_line st trimmed else Inr st) of
            Inl st \<Rightarrow> st
          | Inr st \<Rightarrow> body_line st trimmed))"

text \<open>
  One pass of the outer \<open>while\<close>, on the line at index \<open>i\<close> and the lines after it: the
  new variables and the number of further lines the pass consumed as the continuation of
  a reference.
\<close>

definition parse_line :: "runtime \<Rightarrow> parser \<Rightarrow> ustr \<Rightarrow> ustr list \<Rightarrow> parser \<times> nat" where
  "parse_line E st raw following =
     (let line = rstrip_newline raw; trimmed = strip line
      in if heading_named ''references'' trimmed \<or> trimmed = u ''REFERENCES''
         then (st\<lparr>in_references := True, current_section := None\<rparr>, 0)
         else if in_references st then
           (case ref_match E trimmed of
              None \<Rightarrow> (st, 0)
            | Some ref_text \<Rightarrow>
               (let more = takeWhile (is_continuation E) following;
                    ref_text = foldl (\<lambda>t l. t @ u '' '' @ strip l) ref_text more
                in (st\<lparr>result := (result st)\<lparr>p_references :=
                          p_references (result st) @ [ref_text]\<rparr>\<rparr>, length more)))
         else if prefix (u ''# '') line \<and> state st = ''front''
         then (st\<lparr>result := (result st)\<lparr>p_title := strip (drop 2 line)\<rparr>,
                  state := ''post_title''\<rparr>, 0)
         else case (if state st = ''post_title'' then post_title_line st trimmed else Inr st) of
            Inl st \<Rightarrow> (st, 0)
          | Inr st \<Rightarrow> (after_title st trimmed, 0))"

fun parse_loop :: "runtime \<Rightarrow> parser \<Rightarrow> ustr list \<Rightarrow> parser" where
  "parse_loop E st [] = st"
| "parse_loop E st (l # ls) =
     (case parse_line E st l ls of (st', k) \<Rightarrow> parse_loop E st' (drop k ls))"

definition parse_markdown :: "runtime \<Rightarrow> ustr list \<Rightarrow> parsed" where
  \<comment> \<open>on the lines \<open>f.readlines()\<close> returns\<close>
  "parse_markdown E lines =
     result (parse_loop E
       \<lparr>result = \<lparr>p_title = [], p_authors = [], p_abstract = [], p_keywords = [],
                   p_sections = [], p_references = []\<rparr>,
        state = ''front'', in_references = False, current_section = None,
        h1_count = 0, h2_count = 0\<rparr> lines)"

section \<open>The command line\<close>

text \<open>
  What \<open>main\<close> asks of the world is a record: the argument if one was given, whether the
  resolved path exists, its suffix in lower case, what reading the file gives and whether
  saving raises.  What it does is a list of events, in order, and the way it ends.
\<close>

record world =
  argv1 :: "ustr option"
  path_exists :: bool
  suffix_lower :: ustr
  read_lines :: "error + ustr list"
  save_raises :: "error option"

datatype message = MsgNotFound | MsgWarning | MsgInput | MsgOutput | MsgBlank | MsgParsing
  | MsgSummary parsed | MsgBuilding | MsgSaved | MsgError error

datatype event = Print message | Input | Parse | Build | Save document

datatype ending = Returned | Exit int | Raised error

definition main :: "runtime \<Rightarrow> document \<Rightarrow> world \<Rightarrow> event list \<times> ending" where
  "main E doc0 w =
     (let ev = (if argv1 w \<noteq> None then [] else [Input])
      in if \<not> path_exists w then (ev @ [Print MsgNotFound], Exit 1)
         else
          (let ev = (if suffix_lower w \<noteq> u ''.md'' then ev @ [Print MsgWarning] else ev);
               ev = ev @ [Print MsgInput, Print MsgOutput, Print MsgBlank];
               ev = ev @ [Print MsgParsing, Parse]
           in case read_lines w of Inl e \<Rightarrow> (ev, Raised e)
              | Inr lines \<Rightarrow>
                 (let parsed = parse_markdown E lines;
                      ev = ev @ [Print (MsgSummary parsed), Print MsgBlank];
                      ev = ev @ [Print MsgBuilding, Build]
                  in case build_document E doc0 parsed of Inl e \<Rightarrow> (ev, Raised e)
                     | Inr doc \<Rightarrow>
                        (let ev = ev @ [Save doc]
                         in case save_raises w of Some e \<Rightarrow> (ev, Raised e)
                            | None \<Rightarrow>
                               (ev @ [Print MsgSaved] @ (if argv1 w = None then [Input] else []),
                                Returned)))))"

definition program :: "runtime \<Rightarrow> document \<Rightarrow> world \<Rightarrow> event list \<times> ending" where
  \<comment> \<open>the block under \<open>__main__\<close>: an exception is reported, a key awaited, and it is
      raised again; \<open>sys.exit\<close> is not an \<open>Exception\<close> and passes\<close>
  "program E doc0 w =
     (case main E doc0 w of
        (ev, Raised e) \<Rightarrow> (ev @ [Print (MsgError e), Print MsgBlank, Input], Raised e)
      | r \<Rightarrow> r)"

definition exit_status :: "ending \<Rightarrow> int" where
  "exit_status e = (case e of Returned \<Rightarrow> 0 | Exit n \<Rightarrow> n | Raised x \<Rightarrow> 1)"

section \<open>What the claims speak of\<close>

text \<open>
  The region descriptors of a document in document order: those of the section-break
  paragraphs of the body, then the descriptor of the document itself.
\<close>

fun sect_breaks :: "block list \<Rightarrow> sectPr list" where
  "sect_breaks [] = []"
| "sect_breaks (Para p # bs) = sect_breaks bs"
| "sect_breaks (SectBreak s # bs) = s # sect_breaks bs"

definition region_descriptors :: "document \<Rightarrow> sectPr list" where
  "region_descriptors doc =
     sect_breaks (d_body doc) @ (case d_sectPr doc of None \<Rightarrow> [] | Some s \<Rightarrow> [s])"

definition region :: "string option \<Rightarrow> int \<Rightarrow> int \<Rightarrow> bool \<Rightarrow> sectPr" where
  "region ty n gap eq = \<lparr>sp_type = ty, sp_pgSz = (PAGE_W_TWIPS, PAGE_H_TWIPS),
     sp_pgMar = page_margins, sp_cols_num = n, sp_cols_space = gap,
     sp_cols_equalWidth = eq, sp_linePitch = 360\<rparr>"

definition author_row_region :: "nat \<Rightarrow> sectPr" where
  "author_row_region n = region (Some ''continuous'') (int n) AUTHOR_COL_SPACE_TWIPS (n > 1)"

definition single_column_region :: sectPr where
  "single_column_region = region None 1 COL_SPACE_TWIPS False"

definition terminal_region :: sectPr where
  "terminal_region = region (Some ''continuous'') 2 COL_SPACE_TWIPS True"

definition author_rows :: "nat \<Rightarrow> nat list" where
  "author_rows n = (if n \<ge> 2 then map (\<lambda>k. min (n - 4 * k) 4) [0..<(n + 3) div 4] else [])"

definition numbers_in_range :: "parsed \<Rightarrow> bool" where
  "numbers_in_range p = (\<forall>s \<in> set (p_sections p).
      s_level s = 2 \<longrightarrow> 0 \<le> 64 + s_number s \<and> 64 + s_number s < 0x110000)"

definition row_blocks :: "author list \<Rightarrow> nat \<Rightarrow> nat \<Rightarrow> block list" where
  "row_blocks authors m row_start =
     SectBreak (author_row_region (length (slice row_start (row_start + m) authors)))
       # map Para (map make_author_paragraph (slice row_start (row_start + m) authors))"

text \<open>Inputs for the instances: a run of the interpreter, a template and papers.\<close>

definition cpython :: runtime where
  "cpython = \<lparr>func_order = LATEX_FUNCTIONS, uni_digit = (\<lambda>c. 48 \<le> c \<and> c \<le> 57)\<rparr>"

definition template :: document where
  "template = \<lparr>d_body = [], d_sectPr = Some (region None 1 720 False)\<rparr>"

definition some_author :: author where
  "some_author = \<lparr>a_name = u ''Ada'', a_lines = [u ''Lab'', u ''Town'']\<rparr>"

definition paper :: "nat \<Rightarrow> parsed" where
  "paper n = \<lparr>p_title = u ''On Things'', p_authors = replicate n some_author,
     p_abstract = [u ''We study things.''], p_keywords = u ''things'',
     p_sections = [\<lparr>s_level = 1, s_heading = u ''Introduction'', s_number = 1,
                     s_content = [PlainText (u ''Things are.''), Equation (u ''a = b'')]\<rparr>,
                   \<lparr>s_level = 2, s_heading = u ''1. Scope'', s_number = 1,
                     s_content = [Equation (u ''c = d''), PlainText (u ''So.'')]\<rparr>],
     p_references = [u ''Smith, J. Paper One.'']\<rparr>"

definition two_column_body :: "sectPr \<Rightarrow> bool" where
  "two_column_body s = (sp_cols_num s = 2 \<and> sp_cols_space s = COL_SPACE_TWIPS)"

definition spec_region_columns :: "nat \<Rightarrow> int list" where
  \<comment> \<open>the column counts in the order the specification gives: title, author rows, body,
      terminal\<close>
  "spec_region_columns n = [1] @ map int (author_rows n) @ [2] @ [2]"

definition centered :: "block \<Rightarrow> bool" where
  "centered b = (case b of Para q \<Rightarrow> pp_jc q = ''center'' | SectBreak s \<Rightarrow> False)"

definition is_author_region :: "sectPr \<Rightarrow> bool" where
  "is_author_region s = (sp_cols_space s = AUTHOR_COL_SPACE_TWIPS)"

definition run_bold :: "run \<Rightarrow> bool" where
  "run_bold r = (case r of Run el \<Rightarrow> r_b el | _ \<Rightarrow> False)"

definition run_italic :: "run \<Rightarrow> bool" where
  "run_italic r = (case r of Run el \<Rightarrow> r_i el | _ \<Rightarrow> False)"

definition run_half_points :: "run \<Rightarrow> int" where
  "run_half_points r = (case r of Run el \<Rightarrow> r_sz el | BrRun n \<Rightarrow> n | BulletRun el \<Rightarrow> r_sz el | TabRun \<Rightarrow> 0)"

definition run_text :: "run \<Rightarrow> ustr" where
  "run_text r = (case r of Run el \<Rightarrow> r_t el | BulletRun el \<Rightarrow> r_t el | _ \<Rightarrow> [])"

fun equation_bodies :: "content_item list \<Rightarrow> ustr list" where
  "equation_bodies [] = []"
| "equation_bodies (Equation b # items) = b # equation_bodies items"
| "equation_bodies (PlainText t # items) = equation_bodies items"

definition all_equations :: "parsed \<Rightarrow> ustr list" where
  "all_equations p = concat (map (\<lambda>sec. equation_bodies (s_content sec)) (p_sections p))"

fun equation_paras :: "block list \<Rightarrow> para_el list" where
  "equation_paras [] = []"
| "equation_paras (Para q # bs) = (if pp_tabs q \<noteq> [] then q # equation_paras bs else equation_paras bs)"
| "equation_paras (SectBreak s # bs) = equation_paras bs"

definition equation_label :: "para_el \<Rightarrow> ustr" where
  "equation_label q = (case last (pp_runs q) of Run el \<Rightarrow> r_t el | _ \<Rightarrow> [])"

fun numbered :: "int \<Rightarrow> ustr list \<Rightarrow> (int \<times> ustr) list" where
  "numbered n [] = []"
| "numbered n (b # bs) = (n, b) # numbered (n + 1) bs"

definition front_blocks :: "runtime \<Rightarrow> parsed \<Rightarrow> block list" where
  "front_blocks E p = Para (title_para p) # author_block [] (p_authors p)
     @ [SectBreak single_column_region, Para (abstract_para E p)]
     @ (if p_keywords p \<noteq> [] then [Para (keywords_para (p_keywords p))] else [])"

text \<open>
  A rewrite pattern of the transliterator matches in a text when its matcher accepts the
  text from some position on.  A text is free of notation when none of the patterns of
  \<open>resolve_latex\<close> matches in it.  A run of the interpreter is in order when the functions
  are visited once each.
\<close>

definition matches_in :: "matcher \<Rightarrow> ustr \<Rightarrow> bool" where
  "matches_in m s = (\<exists>prev t. suffix t s \<and> m prev t \<noteq> None)"

definition rewrite_matchers :: "runtime \<Rightarrow> matcher list" where
  "rewrite_matchers E =
     [match_double_backslash, match_inline_math E, match_text, match_mathbb, match_frac]
     @ map match_func (func_order E)
     @ map (\<lambda>(cmd, g). match_literal cmd g) LATEX_GLYPHS"

definition notation_free :: "runtime \<Rightarrow> ustr \<Rightarrow> bool" where
  "notation_free E s = (\<forall>m \<in> set (rewrite_matchers E). \<not> matches_in m s)"

definition runtime_ok :: "runtime \<Rightarrow> bool" where
  "runtime_ok E = (set (func_order E) = set LATEX_FUNCTIONS \<and> distinct (func_order E))"

fun bs_tails :: "ustr \<Rightarrow> ustr list" where
  "bs_tails [] = []"
| "bs_tails (c # cs) = (if c = bsl then [c # cs] else []) @ bs_tails cs"

definition nested_frac :: ustr where
  "nested_frac = bsl # u ''frac{'' @ bsl # u ''frac{a}{b}}{c}''"

definition half_flat :: ustr where
  "half_flat = u ''('' @ bsl # u ''frac{a}{b})/(c)''"

text \<open>
  The numbers of a list of sections, given as pairs of level and number, follow the
  counters from \<open>(h1, h2)\<close> when each level-1 section has the next number of the first
  counter and sets the second one back to 0, and each level-2 section has the next number
  of the second counter.  The headings of a body are the texts of its paragraphs that keep
  with the next one.
\<close>

fun numbers_from :: "int \<times> int \<Rightarrow> (int \<times> int) list \<Rightarrow> bool" where
  "numbers_from (h1, h2) [] = True"
| "numbers_from (h1, h2) ((lvl, n) # ks) =
     (if lvl = 1 then n = h1 + 1 \<and> numbers_from (h1 + 1, 0) ks
      else lvl = 2 \<and> n = h2 + 1 \<and> numbers_from (h1, h2 + 1) ks)"

fun counters_after :: "int \<times> int \<Rightarrow> (int \<times> int) list \<Rightarrow> int \<times> int" where
  "counters_after (h1, h2) [] = (h1, h2)"
| "counters_after (h1, h2) ((lvl, n) # ks) =
     (if lvl = 1 then counters_after (h1 + 1, 0) ks else counters_after (h1, h2 + 1) ks)"

definition section_keys :: "section_rec list \<Rightarrow> (int \<times> int) list" where
  "section_keys secs = map (\<lambda>s. (s_level s, s_number s)) secs"

definition counted :: "parser \<Rightarrow> bool" where
  "counted st = (numbers_from (0, 0) (section_keys (p_sections (result st)))
     \<and> counters_after (0, 0) (section_keys (p_sections (result st))) = (h1_count st, h2_count st))"

definition same_sections :: "parser \<Rightarrow> parser \<Rightarrow> bool" where
  "same_sections st st' = (p_sections (result st') = p_sections (result st)
     \<and> h1_count st' = h1_count st \<and> h2_count st' = h2_count st)"

fun heading_texts :: "block list \<Rightarrow> ustr list" where
  "heading_texts [] = []"
| "heading_texts (Para q # bs) =
     (if pp_keepNext q then concat (map run_text (pp_runs q)) # heading_texts bs
      else heading_texts bs)"
| "heading_texts (SectBreak s # bs) = heading_texts bs"

definition section_display :: "section_rec \<Rightarrow> ustr list" where
  "section_display sec =
     (if s_level sec = 1
      then [to_roman (s_number sec) @ u ''. '' @ strip_numbering (s_heading sec)]
      else if s_level sec = 2
      then (case to_letter (s_number sec) of Inl e \<Rightarrow> []
            | Inr letter \<Rightarrow> [letter @ u ''. '' @ strip_numbering (s_heading sec)])
      else [])"

definition sample_lines :: "ustr list" where
  "sample_lines = map (\<lambda>l. u l @ [10])
     [''# On Things'', ''**Ada**'', ''*Lab*'', ''## Abstract'', ''We study things.'',
      ''## Introduction'', ''Things are.'', ''### 1. Scope'', ''$$a = b$$'', ''### Plan'',
      ''## Method'', ''### Setup'', ''## References'', ''[1] Smith, J. Paper One.'']"

definition sample_world :: world where
  "sample_world = \<lparr>argv1 = Some (u ''paper.txt''), path_exists = True, suffix_lower = u ''.txt'',
     read_lines = Inr sample_lines, save_raises = None\<rparr>"

definition prompt_events :: "world \<Rightarrow> event list" where
  "prompt_events w = (if argv1 w \<noteq> None then [] else [Input])"

section \<open>Properties\<close>

subsection \<open>Section breaks of the parts of the body\<close>

lemma sect_breaks_append [simp]: "sect_breaks (a @ b) = sect_breaks a @ sect_breaks b"
  by (induction a rule: sect_breaks.induct) auto

lemma sect_breaks_map_Para [simp]: "sect_breaks (map Para ps) = []"
  by (induction ps) auto

lemma sect_breaks_map_Para_comp [simp]: "sect_breaks (map (Para \<circ> f) xs) = []"
  by (induction xs) auto

lemma sect_breaks_render_text [simp]: "sect_breaks (render_text E t) = []"
  by (simp add: render_text_def Let_def split: option.splits prod.splits)

lemma render_content_append:
  "render_content E body ec items =
     (body @ fst (render_content E [] ec items), snd (render_content E [] ec items))"
proof (induction items arbitrary: body ec)
  case Nil
  show ?case by simp
next
  case (Cons it items)
  show ?case
  proof (cases it)
    case (PlainText t)
    show ?thesis
      using Cons.IH [of "body @ render_text E t" ec] Cons.IH [of "render_text E t" ec]
      by (simp add: PlainText)
  next
    case (Equation b)
    show ?thesis
      using Cons.IH [of "body @ [Para (equation_para E b (ec + 1))]" "ec + 1"]
        Cons.IH [of "[Para (equation_para E b (ec + 1))]" "ec + 1"]
      by (simp add: Equation)
  qed
qed

lemma sect_breaks_render_content [simp]:
  "sect_breaks (fst (render_content E body ec items)) = sect_breaks body"
proof (induction items arbitrary: body ec)
  case Nil
  show ?case by simp
next
  case (Cons it items)
  show ?case by (cases it) (simp_all add: Cons.IH)
qed

lemma section_heading_breaks: "section_heading sec = Inr hs \<Longrightarrow> sect_breaks hs = []"
  by (auto simp: section_heading_def Let_def split: if_splits sum.splits)

lemma build_sections_breaks:
  "build_sections E body ec secs = Inr (body', ec') \<Longrightarrow> sect_breaks body' = sect_breaks body"
proof (induction secs arbitrary: body ec)
  case Nil
  then show ?case by simp
next
  case (Cons sec secs)
  from Cons.prems obtain hs where hs: "section_heading sec = Inr hs"
    by (auto split: sum.splits)
  obtain b c where rc: "render_content E (body @ hs) ec (s_content sec) = (b, c)"
    by (cases "render_content E (body @ hs) ec (s_content sec)")
  with Cons.prems hs have "build_sections E b c secs = Inr (body', ec')" by simp
  then have "sect_breaks body' = sect_breaks b" by (rule Cons.IH)
  moreover have "sect_breaks b = sect_breaks (body @ hs)"
    using sect_breaks_render_content [of E "body @ hs" ec "s_content sec"] rc by simp
  ultimately show ?case using section_heading_breaks [OF hs] by simp
qed

lemma build_sections_total:
  "\<forall>s \<in> set secs. s_level s = 2 \<longrightarrow> 0 \<le> 64 + s_number s \<and> 64 + s_number s < 0x110000
   \<Longrightarrow> \<exists>b c. build_sections E body ec secs = Inr (b, c)"
proof (induction secs arbitrary: body ec)
  case Nil
  show ?case by simp
next
  case (Cons sec secs)
  have "\<exists>hs. section_heading sec = Inr hs"
    using Cons.prems by (auto simp: section_heading_def to_letter_def py_chr_def Let_def)
  then obtain hs where hs: "section_heading sec = Inr hs" ..
  obtain b c where rc: "render_content E (body @ hs) ec (s_content sec) = (b, c)"
    by (cases "render_content E (body @ hs) ec (s_content sec)")
  from Cons.IH [of b c] Cons.prems show ?case by (simp add: hs rc)
qed

lemma sect_breaks_reference_paras [simp]: "sect_breaks (reference_paras i refs) = []"
  by (induction refs arbitrary: i) auto

lemma sect_breaks_affil [simp]: "sect_breaks (affil_paragraphs ls) = []"
  by (induction ls) auto

lemma count_step:
  assumes "0 < (m::nat)" "i < n"
  shows "(n - i + m - 1) div m = Suc ((n - (i + m) + m - 1) div m)"
proof (cases "i + m < n")
  case True
  then have "n - i + m - 1 = (n - (i + m) + m - 1) + m" by simp
  then have "(n - i + m - 1) div m = ((n - (i + m) + m - 1) + m) div m" by simp
  also have "\<dots> = (n - (i + m) + m - 1) div m + 1"
    using assms(1) by (simp only: div_add_self2 [of m "n - (i + m) + m - 1"]) 
  finally show ?thesis by simp
next
  case False
  then have a: "n - (i + m) + m - 1 = m - 1" by simp
  have "(m - 1) div m = 0" using assms(1) by simp
  moreover have "(n - i + m - 1) div m = 1"
  proof -
    from False assms have "n - i + m - 1 = (n - i - 1) + m" and "n - i - 1 < m" by simp_all
    then have "(n - i + m - 1) div m = (n - i - 1) div m + 1"
      using assms(1) by (simp only: div_add_self2 [of m "n - i - 1"])
    with \<open>n - i - 1 < m\<close> show ?thesis by simp
  qed
  ultimately show ?thesis using a by simp
qed

lemma range_step_closed:
  "0 < m \<Longrightarrow> range_step i n m = map (\<lambda>k. i + k * m) [0..<(n - i + m - 1) div m]"
proof (induction i n m rule: range_step.induct)
  case (1 i n step)
  show ?case
  proof (cases "i < n")
    case False
    then have "(n - i + step - 1) div step = 0" using "1.prems" by simp
    with False show ?thesis by (simp add: range_step.simps [of i n step])
  next
    case True
    have "range_step i n step = i # range_step (i + step) n step"
      using True "1.prems" by (simp add: range_step.simps [of i n step])
    also have "range_step (i + step) n step
        = map (\<lambda>k. i + step + k * step) [0..<(n - (i + step) + step - 1) div step]"
      using "1.IH" True "1.prems" by simp
    also have "i # \<dots> = map (\<lambda>k. i + k * step) [0..<Suc ((n - (i + step) + step - 1) div step)]"
    proof -
      let ?c = "(n - (i + step) + step - 1) div step"
      have "[0..<Suc ?c] = 0 # map Suc [0..<?c]"
        by (simp only: map_Suc_upt upt_conv_Cons [of 0 "Suc ?c"] zero_less_Suc if_True)
      then show ?thesis by (simp add: comp_def del: upt_Suc)
    qed
    finally show ?thesis
      by (simp only: count_step [OF "1.prems" True])
  qed
qed

lemma author_row_append: "author_row authors m body row_start = body @ row_blocks authors m row_start"
  by (simp add: author_row_def Let_def inject_section_break_def insert_before_def row_blocks_def
      author_row_region_def region_def)

lemma foldl_author_row:
  "foldl (author_row authors m) body xs = body @ concat (map (row_blocks authors m) xs)"
  by (induction xs arbitrary: body) (simp_all add: author_row_append)

lemma sect_breaks_rows:
  "sect_breaks (concat (map (row_blocks authors m) xs))
     = map (\<lambda>r. author_row_region (length (slice r (r + m) authors))) xs"
  by (induction xs) (simp_all add: row_blocks_def)

lemma author_block_breaks:
  "sect_breaks (author_block body authors)
     = sect_breaks body @ map author_row_region (author_rows (length authors))"
proof -
  let ?n = "length authors"
  consider "?n = 0" | "?n = 1" | "?n = 2 \<or> ?n = 3" | "?n \<ge> 4" by linarith
  then show ?thesis
  proof cases
    case 1
    then show ?thesis by (simp add: author_block_def author_rows_def)
  next
    case 2
    then show ?thesis by (simp add: author_block_def author_rows_def Let_def)
  next
    case 3
    then have m: "min ?n 4 = ?n" by auto
    have "range_step (0 + ?n) ?n ?n = []"
      by (subst range_step.simps) simp
    then have r: "range_step 0 ?n ?n = [0]"
      using 3 by (subst range_step.simps) auto
    from 3 have "author_rows ?n = [?n]"
      by (auto simp: author_rows_def)
    with 3 m r show ?thesis
      by (auto simp: author_block_def Let_def foldl_author_row row_blocks_def slice_def)
  next
    case 4
    then have m: "min ?n 4 = 4" by simp
    have r: "range_step 0 ?n 4 = map (\<lambda>k. k * 4) [0..<(?n + 3) div 4]"
      using range_step_closed [of 4 0 ?n] by (simp add: add.commute)
    have "map (\<lambda>r. author_row_region (length (slice r (r + 4) authors))) (range_step 0 ?n 4)
        = map author_row_region (author_rows ?n)"
      using 4 by (simp add: r author_rows_def slice_def min_def mult.commute)
    moreover from 4 have "authors \<noteq> []" and "?n \<noteq> 1" by auto
    ultimately show ?thesis
      using m by (simp add: author_block_def Let_def foldl_author_row sect_breaks_rows)
  qed
qed

lemma author_block_append: "author_block body authors = body @ author_block [] authors"
proof -
  have "foldl (author_row authors m) body xs = body @ foldl (author_row authors m) [] xs" for m xs
    by (simp add: foldl_author_row)
  then show ?thesis
    by (simp add: author_block_def Let_def)
qed

lemma build_sections_append:
  "build_sections E body ec secs = Inr (b, c) \<Longrightarrow> \<exists>added. b = body @ added \<and> sect_breaks added = []"
proof (induction secs arbitrary: body ec)
  case Nil
  then show ?case by simp
next
  case (Cons sec secs)
  from Cons.prems obtain hs where hs: "section_heading sec = Inr hs"
    by (auto split: sum.splits)
  let ?r = "render_content E [] ec (s_content sec)"
  have rc: "render_content E (body @ hs) ec (s_content sec) = ((body @ hs) @ fst ?r, snd ?r)"
    by (rule render_content_append)
  with Cons.prems hs have "build_sections E ((body @ hs) @ fst ?r) (snd ?r) secs = Inr (b, c)"
    by simp
  from Cons.IH [OF this] obtain added where a: "b = ((body @ hs) @ fst ?r) @ added"
    and n: "sect_breaks added = []" by blast
  have "sect_breaks (hs @ fst ?r @ added) = []"
    using section_heading_breaks [OF hs] n sect_breaks_render_content [of E "[]" ec "s_content sec"]
    by simp
  with a show ?case by (intro exI [of _ "hs @ fst ?r @ added"]) simp
qed

lemma build_document_body:
  assumes "build_document E doc0 p = Inr doc"
  shows "\<exists>rest. d_body doc = Para (title_para p) # author_block [] (p_authors p)
            @ [SectBreak single_column_region, Para (abstract_para E p)] @ rest
          \<and> sect_breaks rest = []
          \<and> d_sectPr doc = Some terminal_region"
proof -
  let ?front = "Para (title_para p) # author_block [] (p_authors p)"
  let ?kw = "if p_keywords p \<noteq> [] then [Para (keywords_para (p_keywords p))] else []"
  let ?body = "?front @ [SectBreak single_column_region, Para (abstract_para E p)] @ ?kw"
  have front: "author_block [Para (title_para p)] (p_authors p) = ?front"
    using author_block_append [of "[Para (title_para p)]"] by simp
  have inj: "inject_continuous_two_col_section_break (?front @ [Para (abstract_para E p)]) (length ?front)
      = ?front @ [SectBreak single_column_region, Para (abstract_para E p)]"
    by (simp add: inject_continuous_two_col_section_break_def insert_before_def
        single_column_region_def region_def)
  from assms front inj obtain b c where bs: "build_sections E ?body 0 (p_sections p) = Inr (b, c)"
    and doc: "doc = set_final_section_two_col (doc0\<lparr>d_body := b
        @ Para references_heading_para # reference_paras 0 (p_references p)\<rparr>)"
    by (auto simp: build_document_def Let_def split: sum.splits if_splits)
  from build_sections_append [OF bs] obtain added where b: "b = ?body @ added"
    and n: "sect_breaks added = []" by blast
  let ?refs = "Para references_heading_para # reference_paras 0 (p_references p)"
  have "d_body doc = ?front @ [SectBreak single_column_region, Para (abstract_para E p)]
      @ (?kw @ added @ ?refs)"
    using doc b by (simp add: set_final_section_two_col_def)
  moreover have "sect_breaks (?kw @ added @ ?refs) = []"
    using n by simp
  moreover have "d_sectPr doc = Some terminal_region"
    using doc by (simp add: set_final_section_two_col_def terminal_region_def region_def)
  ultimately show ?thesis by (intro exI [of _ "?kw @ added @ ?refs"]) simp
qed

lemma build_document_total:
  "numbers_in_range p \<Longrightarrow> \<exists>doc. build_document E doc0 p = Inr doc"
proof -
  assume "numbers_in_range p"
  then have "\<exists>b c. build_sections E body 0 (p_sections p) = Inr (b, c)" for body
    by (intro build_sections_total) (simp add: numbers_in_range_def)
  then show ?thesis
    by (simp add: build_document_def Let_def split: sum.splits) (metis old.prod.exhaust sum.exhaust sum.distinct(1))
qed

lemma build_document_regions:
  assumes "build_document E doc0 p = Inr doc"
  shows "region_descriptors doc = map author_row_region (author_rows (length (p_authors p)))
           @ [single_column_region, terminal_region]"
proof -
  from build_document_body [OF assms] obtain rest where
    "d_body doc = Para (title_para p) # author_block [] (p_authors p)
            @ [SectBreak single_column_region, Para (abstract_para E p)] @ rest"
    "sect_breaks rest = []" "d_sectPr doc = Some terminal_region" by blast
  then show ?thesis
    by (simp add: region_descriptors_def author_block_breaks)
qed

subsection \<open>The order of the region descriptors\<close>

lemma numbers_in_range_paper: "numbers_in_range (paper n)"
  by (simp add: numbers_in_range_def paper_def)

lemma author_row_not_single: "author_row_region n \<noteq> single_column_region"
  by (simp add: author_row_region_def single_column_region_def region_def)

lemma author_row_not_body: "\<not> two_column_body (author_row_region n)"
  by (simp add: two_column_body_def author_row_region_def region_def AUTHOR_COL_SPACE_TWIPS_def
      COL_SPACE_TWIPS_def)

lemma build_document_breaks:
  assumes "build_document E doc0 p = Inr doc"
  shows "sect_breaks (d_body doc)
     = map author_row_region (author_rows (length (p_authors p))) @ [single_column_region]"
    and "d_sectPr doc = Some terminal_region"
proof -
  from build_document_body [OF assms] obtain rest where
    "d_body doc = Para (title_para p) # author_block [] (p_authors p)
            @ [SectBreak single_column_region, Para (abstract_para E p)] @ rest"
    "sect_breaks rest = []" and t: "d_sectPr doc = Some terminal_region" by blast
  then show "sect_breaks (d_body doc)
     = map author_row_region (author_rows (length (p_authors p))) @ [single_column_region]"
    by (simp add: author_block_breaks)
  from t show "d_sectPr doc = Some terminal_region" .
qed

text \<open>
  Claim C1, as the code has it.  For every parsed document whose level-2 section numbers
  are in the range of \<open>chr\<close>, \<open>build_document\<close> returns a document with these region
  descriptors: in the section-break paragraphs of the body exactly one single-column
  descriptor without a continuous type and, besides it, the descriptors of the author rows
  in the order of the rows (none for fewer than two authors); and last the two-column
  continuous descriptor of the document.  That one is the only terminal descriptor and the
  only two-column descriptor with the body gap: no section break of the body restates it.
  With fewer than two authors the descriptors are exactly the single-column one and the
  terminal one.
\<close>

theorem region_descriptor_order:
  assumes "numbers_in_range p"
  shows "\<exists>doc. build_document E doc0 p = Inr doc
     \<and> d_sectPr doc = Some terminal_region
     \<and> region_descriptors doc = sect_breaks (d_body doc) @ [terminal_region]
     \<and> (\<forall>s \<in> set (sect_breaks (d_body doc)). s \<noteq> terminal_region \<and> \<not> two_column_body s)
     \<and> filter (\<lambda>s. s = single_column_region) (sect_breaks (d_body doc)) = [single_column_region]
     \<and> filter (\<lambda>s. s \<noteq> single_column_region) (sect_breaks (d_body doc))
         = map author_row_region (author_rows (length (p_authors p)))
     \<and> (length (p_authors p) \<le> 1 \<longrightarrow>
          region_descriptors doc = [single_column_region, terminal_region])"
proof -
  let ?rows = "map author_row_region (author_rows (length (p_authors p)))"
  from build_document_total [OF assms] obtain doc where doc: "build_document E doc0 p = Inr doc"
    by blast
  note b = build_document_breaks [OF doc]
  have r: "region_descriptors doc = sect_breaks (d_body doc) @ [terminal_region]"
    by (simp add: region_descriptors_def b(2))
  have f1: "filter (\<lambda>s. s = single_column_region) ?rows = []"
    and f2: "filter (\<lambda>s. s \<noteq> single_column_region) ?rows = ?rows"
    using author_row_not_single by (simp_all add: filter_empty_conv filter_id_conv)
  have t: "\<forall>s \<in> set (sect_breaks (d_body doc)). s \<noteq> terminal_region \<and> \<not> two_column_body s"
    using author_row_not_body
    by (auto simp: b(1) two_column_body_def single_column_region_def terminal_region_def
        region_def author_row_region_def)
  have small: "length (p_authors p) \<le> 1 \<longrightarrow>
      region_descriptors doc = [single_column_region, terminal_region]"
    by (simp add: r b(1) author_rows_def)
  from doc b(2) r t f1 f2 small show ?thesis
    by (intro exI [of _ doc]) (simp add: b(1))
qed

theorem region_descriptor_order_witness:
  "numbers_in_range (paper 5) \<and> numbers_in_range (paper 1) \<and>
   (\<exists>doc. build_document cpython template (paper 5) = Inr doc
     \<and> d_sectPr doc = Some terminal_region
     \<and> filter (\<lambda>s. s = single_column_region) (sect_breaks (d_body doc)) = [single_column_region]
     \<and> filter (\<lambda>s. s \<noteq> single_column_region) (sect_breaks (d_body doc))
         = [author_row_region 4, author_row_region 1]) \<and>
   (\<exists>doc. build_document cpython template (paper 1) = Inr doc
     \<and> region_descriptors doc = [single_column_region, terminal_region])"
proof -
  have a: "author_rows (length (p_authors (paper 5))) = [4, 1]"
    "length (p_authors (paper 1)) \<le> 1"
    by (simp_all add: author_rows_def paper_def upt_conv_Cons)
  from region_descriptor_order [where p = "paper 5" and E = cpython and ?doc0.0 = template]
    region_descriptor_order [where p = "paper 1" and E = cpython and ?doc0.0 = template]
    numbers_in_range_paper a
  show ?thesis by (simp add: numbers_in_range_paper) blast
qed

text \<open>
  Claim C1 as the specification states it has a two-column body descriptor before the
  terminal one, and the single-column descriptor before the author rows.  Without authors
  that is the column counts 1, 2, 2, and the document built has 1, 2; for two authors it
  is 1, 2, 2, 2, and the document built has 2, 1, 2.
\<close>

theorem region_descriptor_order_counterexample:
  "map_sum id (\<lambda>doc. map sp_cols_num (region_descriptors doc))
      (build_document cpython template (paper 0)) = Inr [1, 2]
   \<and> spec_region_columns (length (p_authors (paper 0))) = [1, 2, 2]
   \<and> map_sum id (\<lambda>doc. map sp_cols_num (region_descriptors doc))
      (build_document cpython template (paper 2)) = Inr [2, 1, 2]
   \<and> spec_region_columns (length (p_authors (paper 2))) = [1, 2, 2, 2]"
proof -
  obtain d0 where d0: "build_document cpython template (paper 0) = Inr d0"
    using build_document_total [OF numbers_in_range_paper] by blast
  obtain d2 where d2: "build_document cpython template (paper 2) = Inr d2"
    using build_document_total [OF numbers_in_range_paper] by blast
  have a: "author_rows (length (p_authors (paper 0))) = []"
    "author_rows (length (p_authors (paper 2))) = [2]"
    by (simp_all add: author_rows_def paper_def)
  have "map sp_cols_num (region_descriptors d0) = [1, 2]"
    "map sp_cols_num (region_descriptors d2) = [2, 1, 2]"
    by (simp_all add: build_document_regions [OF d0] build_document_regions [OF d2] a
        author_row_region_def single_column_region_def terminal_region_def region_def)
  moreover have "spec_region_columns (length (p_authors (paper 0))) = [1, 2, 2]"
    "spec_region_columns (length (p_authors (paper 2))) = [1, 2, 2, 2]"
    using a by (simp_all add: spec_region_columns_def)
  ultimately show ?thesis by (simp add: d0 d2)
qed

subsection \<open>The author rows\<close>

lemma centered_affil: "list_all centered (affil_paragraphs ls)"
  by (induction ls) (simp_all add: centered_def make_paragraph_def align_map_def)

lemma affil_paragraphs_map:
  "affil_paragraphs ls
     = map (\<lambda>l. Para \<lparr>pp_keepNext = False, pp_tabs = [], pp_before = 0, pp_after = 40,
                        pp_line = Some (228, ''auto''), pp_ind = None, pp_jc = ''center'',
                        pp_runs = [Run \<lparr>r_font = ''Times New Roman'', r_sz = 20, r_b = False,
                                        r_i = True, r_smallCaps = False, r_vertAlign = [],
                                        r_t = l\<rparr>]\<rparr>) ls"
  by (induction ls)
     (simp_all add: make_paragraph_def make_run_def rdef_def pdef_def align_map_def
        AFFIL_PT_def FONT_def)

lemma author_name_para_record:
  "author_name_para a
     = \<lparr>pp_keepNext = False, pp_tabs = [], pp_before = 0, pp_after = 40,
        pp_line = Some (228, ''auto''), pp_ind = None, pp_jc = ''center'',
        pp_runs = [Run \<lparr>r_font = ''Times New Roman'', r_sz = 22, r_b = False,
                        r_i = False, r_smallCaps = False, r_vertAlign = [],
                        r_t = a_name a\<rparr>]\<rparr>"
  by (simp add: author_name_para_def make_paragraph_def make_run_def rdef_def pdef_def
        align_map_def AUTHOR_PT_def FONT_def)

lemma author_row_region_record:
  "author_row_region n
     = \<lparr>sp_type = Some ''continuous'', sp_pgSz = (12240, 15840),
        sp_pgMar = (1080, 893, 1440, 893, 720, 720, 0),
        sp_cols_num = int n, sp_cols_space = 216, sp_cols_equalWidth = (n > 1),
        sp_linePitch = 360\<rparr>"
  by (simp add: author_row_region_def region_def page_margins_def PAGE_W_TWIPS_def
        PAGE_H_TWIPS_def AUTHOR_COL_SPACE_TWIPS_def MARGIN_TOP_TWIPS_def
        MARGIN_BOTTOM_TWIPS_def MARGIN_LR_TWIPS_def)

text \<open>
  Claim C2.  The author block adds to the body the section breaks of the author rows and
  no other: none for no author and for one author, and for \<open>N \<ge> 2\<close> authors
  \<open>ceil(N/4) = (N + 3) div 4\<close> of them, the \<open>k\<close>-th (from 0) with \<open>min(N - 4k, 4)\<close>
  columns.  For no author the body is unchanged.  For one author the block appends plain
  paragraphs and nothing else: first the centered paragraph whose only run carries the name
  of the author at 11 points (22 half-points), upright, then for each affiliation line, in
  order, a centered paragraph whose only run carries that line at 10 points in italics.  In
  the document built, the descriptors with the gap of the author columns are those of the
  rows; the descriptor of a row of \<open>n\<close> authors is continuous, with \<open>n\<close> columns and the
  gap of 216 twips.
\<close>

theorem author_region_boundaries:
  "sect_breaks (author_block body authors)
     = sect_breaks body @ map author_row_region
         (if length authors \<ge> 2
          then map (\<lambda>k. min (length authors - 4 * k) 4) [0..<(length authors + 3) div 4]
          else [])
   \<and> (length authors = 0 \<longrightarrow> author_block body authors = body)
   \<and> (length authors = 1 \<longrightarrow>
        author_block body authors
          = body
            @ Para \<lparr>pp_keepNext = False, pp_tabs = [], pp_before = 0, pp_after = 40,
                    pp_line = Some (228, ''auto''), pp_ind = None, pp_jc = ''center'',
                    pp_runs = [Run \<lparr>r_font = ''Times New Roman'', r_sz = 22, r_b = False,
                                    r_i = False, r_smallCaps = False, r_vertAlign = [],
                                    r_t = a_name (authors ! 0)\<rparr>]\<rparr>
            # map (\<lambda>l. Para \<lparr>pp_keepNext = False, pp_tabs = [], pp_before = 0, pp_after = 40,
                    pp_line = Some (228, ''auto''), pp_ind = None, pp_jc = ''center'',
                    pp_runs = [Run \<lparr>r_font = ''Times New Roman'', r_sz = 20, r_b = False,
                                    r_i = True, r_smallCaps = False, r_vertAlign = [],
                                    r_t = l\<rparr>]\<rparr>) (a_lines (authors ! 0))
        \<and> author_block body authors
          = body @ Para (author_name_para (authors ! 0)) # affil_paragraphs (a_lines (authors ! 0))
        \<and> list_all centered (Para (author_name_para (authors ! 0)) # affil_paragraphs (a_lines (authors ! 0))))
   \<and> (build_document E doc0 \<lparr>p_title = t, p_authors = authors, p_abstract = ab, p_keywords = kw,
          p_sections = secs, p_references = refs\<rparr> = Inr doc \<longrightarrow>
        filter is_author_region (region_descriptors doc)
          = map author_row_region
             (if length authors \<ge> 2
              then map (\<lambda>k. min (length authors - 4 * k) 4) [0..<(length authors + 3) div 4]
              else []))
   \<and> author_row_region n
        = \<lparr>sp_type = Some ''continuous'', sp_pgSz = (12240, 15840),
           sp_pgMar = (1080, 893, 1440, 893, 720, 720, 0),
           sp_cols_num = int n, sp_cols_space = 216, sp_cols_equalWidth = (n > 1),
           sp_linePitch = 360\<rparr>"
proof -
  let ?rows = "if length authors \<ge> 2
          then map (\<lambda>k. min (length authors - 4 * k) 4) [0..<(length authors + 3) div 4]
          else []"
  have rows: "author_rows (length authors) = ?rows"
    by (simp add: author_rows_def)
  have f: "filter is_author_region (map author_row_region ns) = map author_row_region ns" for ns
    by (induction ns) (simp_all add: is_author_region_def author_row_region_def region_def)
  have g: "\<not> is_author_region single_column_region" "\<not> is_author_region terminal_region"
    by (simp_all add: is_author_region_def single_column_region_def terminal_region_def region_def
        AUTHOR_COL_SPACE_TWIPS_def COL_SPACE_TWIPS_def)
  have c1: "sect_breaks (author_block body authors) = sect_breaks body @ map author_row_region ?rows"
    using author_block_breaks [of body authors] by (simp only: rows)
  have c2: "length authors = 0 \<longrightarrow> author_block body authors = body"
    by (simp add: author_block_def)
  have c3a: "length authors = 1 \<longrightarrow>
        author_block body authors
          = body @ Para (author_name_para (authors ! 0)) # affil_paragraphs (a_lines (authors ! 0))
        \<and> list_all centered (Para (author_name_para (authors ! 0)) # affil_paragraphs (a_lines (authors ! 0)))"
    using centered_affil [of "a_lines (authors ! 0)"]
    by (simp add: author_block_def Let_def author_name_para_def centered_def
        make_paragraph_def align_map_def)
  have c3b: "length authors = 1 \<longrightarrow>
        author_block body authors
          = body
            @ Para \<lparr>pp_keepNext = False, pp_tabs = [], pp_before = 0, pp_after = 40,
                    pp_line = Some (228, ''auto''), pp_ind = None, pp_jc = ''center'',
                    pp_runs = [Run \<lparr>r_font = ''Times New Roman'', r_sz = 22, r_b = False,
                                    r_i = False, r_smallCaps = False, r_vertAlign = [],
                                    r_t = a_name (authors ! 0)\<rparr>]\<rparr>
            # map (\<lambda>l. Para \<lparr>pp_keepNext = False, pp_tabs = [], pp_before = 0, pp_after = 40,
                    pp_line = Some (228, ''auto''), pp_ind = None, pp_jc = ''center'',
                    pp_runs = [Run \<lparr>r_font = ''Times New Roman'', r_sz = 20, r_b = False,
                                    r_i = True, r_smallCaps = False, r_vertAlign = [],
                                    r_t = l\<rparr>]\<rparr>) (a_lines (authors ! 0))"
    using c3a
    by (simp only: author_name_para_record [symmetric] affil_paragraphs_map [symmetric]) simp
  have c4: "build_document E doc0 \<lparr>p_title = t, p_authors = authors, p_abstract = ab, p_keywords = kw,
          p_sections = secs, p_references = refs\<rparr> = Inr doc \<longrightarrow>
        filter is_author_region (region_descriptors doc) = map author_row_region ?rows"
  proof
    assume "build_document E doc0 \<lparr>p_title = t, p_authors = authors, p_abstract = ab, p_keywords = kw,
          p_sections = secs, p_references = refs\<rparr> = Inr doc"
    from build_document_regions [OF this]
    have "region_descriptors doc = map author_row_region (author_rows (length authors))
           @ [single_column_region, terminal_region]" by simp
    then have "filter is_author_region (region_descriptors doc)
        = map author_row_region (author_rows (length authors))"
      by (simp add: f g)
    then show "filter is_author_region (region_descriptors doc) = map author_row_region ?rows"
      by (simp only: rows)
  qed
  note c5 = author_row_region_record [of n]
  from c1 c2 c3a c3b c4 c5 show ?thesis by blast
qed

theorem author_region_boundaries_witness:
  "sect_breaks (author_block [Para (title_para (paper 6))] (replicate 6 some_author))
     = [author_row_region 4, author_row_region 2]
   \<and> (\<exists>doc. build_document cpython template (paper 6) = Inr doc \<and>
        filter is_author_region (region_descriptors doc) = [author_row_region 4, author_row_region 2])
   \<and> author_row_region 4
        = \<lparr>sp_type = Some ''continuous'', sp_pgSz = (12240, 15840),
           sp_pgMar = (1080, 893, 1440, 893, 720, 720, 0),
           sp_cols_num = 4, sp_cols_space = 216, sp_cols_equalWidth = True,
           sp_linePitch = 360\<rparr>
   \<and> author_block [] [some_author]
       = [Para \<lparr>pp_keepNext = False, pp_tabs = [], pp_before = 0, pp_after = 40,
                pp_line = Some (228, ''auto''), pp_ind = None, pp_jc = ''center'',
                pp_runs = [Run \<lparr>r_font = ''Times New Roman'', r_sz = 22, r_b = False,
                                r_i = False, r_smallCaps = False, r_vertAlign = [],
                                r_t = u ''Ada''\<rparr>]\<rparr>,
          Para \<lparr>pp_keepNext = False, pp_tabs = [], pp_before = 0, pp_after = 40,
                pp_line = Some (228, ''auto''), pp_ind = None, pp_jc = ''center'',
                pp_runs = [Run \<lparr>r_font = ''Times New Roman'', r_sz = 20, r_b = False,
                                r_i = True, r_smallCaps = False, r_vertAlign = [],
                                r_t = u ''Lab''\<rparr>]\<rparr>,
          Para \<lparr>pp_keepNext = False, pp_tabs = [], pp_before = 0, pp_after = 40,
                pp_line = Some (228, ''auto''), pp_ind = None, pp_jc = ''center'',
                pp_runs = [Run \<lparr>r_font = ''Times New Roman'', r_sz = 20, r_b = False,
                                r_i = True, r_smallCaps = False, r_vertAlign = [],
                                r_t = u ''Town''\<rparr>]\<rparr>]
   \<and> sect_breaks (author_block [] [some_author]) = []
   \<and> author_block [] [] = []"
proof -
  obtain doc where doc: "build_document cpython template (paper 6) = Inr doc"
    using build_document_total [OF numbers_in_range_paper] by blast
  have a: "map (\<lambda>k. min (6 - 4 * k) 4) [0..<(6 + 3) div 4] = [4, 2::nat]"
    by (simp add: upt_conv_Cons)
  have p: "paper 6 = \<lparr>p_title = p_title (paper 6), p_authors = replicate 6 some_author,
      p_abstract = p_abstract (paper 6), p_keywords = p_keywords (paper 6),
      p_sections = p_sections (paper 6), p_references = p_references (paper 6)\<rparr>"
    by (simp add: paper_def)
  have six: "sect_breaks (author_block [Para (title_para (paper 6))] (replicate 6 some_author))
      = [author_row_region 4, author_row_region 2]
    \<and> filter is_author_region (region_descriptors doc) = [author_row_region 4, author_row_region 2]
    \<and> author_row_region 4
        = \<lparr>sp_type = Some ''continuous'', sp_pgSz = (12240, 15840),
           sp_pgMar = (1080, 893, 1440, 893, 720, 720, 0),
           sp_cols_num = 4, sp_cols_space = 216, sp_cols_equalWidth = True,
           sp_linePitch = 360\<rparr>"
    using author_region_boundaries [of "[Para (title_para (paper 6))]" "replicate 6 some_author"
        cpython template "p_title (paper 6)" "p_abstract (paper 6)" "p_keywords (paper 6)"
        "p_sections (paper 6)" "p_references (paper 6)" doc 4] doc
    unfolding p [symmetric] length_replicate a by simp
  have one: "author_block [] [some_author]
       = [Para \<lparr>pp_keepNext = False, pp_tabs = [], pp_before = 0, pp_after = 40,
                pp_line = Some (228, ''auto''), pp_ind = None, pp_jc = ''center'',
                pp_runs = [Run \<lparr>r_font = ''Times New Roman'', r_sz = 22, r_b = False,
                                r_i = False, r_smallCaps = False, r_vertAlign = [],
                                r_t = u ''Ada''\<rparr>]\<rparr>,
          Para \<lparr>pp_keepNext = False, pp_tabs = [], pp_before = 0, pp_after = 40,
                pp_line = Some (228, ''auto''), pp_ind = None, pp_jc = ''center'',
                pp_runs = [Run \<lparr>r_font = ''Times New Roman'', r_sz = 20, r_b = False,
                                r_i = True, r_smallCaps = False, r_vertAlign = [],
                                r_t = u ''Lab''\<rparr>]\<rparr>,
          Para \<lparr>pp_keepNext = False, pp_tabs = [], pp_before = 0, pp_after = 40,
                pp_line = Some (228, ''auto''), pp_ind = None, pp_jc = ''center'',
                pp_runs = [Run \<lparr>r_font = ''Times New Roman'', r_sz = 20, r_b = False,
                                r_i = True, r_smallCaps = False, r_vertAlign = [],
                                r_t = u ''Town''\<rparr>]\<rparr>]
     \<and> sect_breaks (author_block [] [some_author]) = []"
    using author_region_boundaries [of "[]" "[some_author]" cpython template "[]" "[]" "[]" "[]" "[]"
        "template" 0]
    by (simp add: some_author_def)
  have none: "author_block [] [] = []"
    using author_region_boundaries [of "[]" "[]" cpython template "[]" "[]" "[]" "[]" "[]"
        "template" 0]
    by simp
  from six one none doc show ?thesis by blast
qed

subsection \<open>The abstract paragraph\<close>

lemma math_runs_style:
  "r \<in> set (math_runs base pend k s) \<Longrightarrow>
     run_bold r = bold base \<and> run_italic r = italic base \<and> run_half_points r = rsize base * 2"
  by (induction base pend k s rule: math_runs.induct)
     (auto simp: make_run_def run_bold_def run_italic_def run_half_points_def
           split: option.splits if_splits)

lemma parse_math_text_style:
  "r \<in> set (parse_math_text E txt a) \<Longrightarrow>
     run_bold r = bold a \<and> run_italic r = italic a \<and> run_half_points r = rsize a * 2"
  using math_runs_style [of r "rdef\<lparr>rsize := rsize a, bold := bold a, italic := italic a, font := font a\<rparr>"
      "[]" 0 "resolve_latex E txt"]
  by (auto simp: parse_math_text_def Let_def make_run_def run_bold_def run_italic_def
      run_half_points_def split: if_splits)

lemma parse_math_text_nonempty: "parse_math_text E txt a \<noteq> []"
  by (simp add: parse_math_text_def Let_def)

text \<open>
  Claim C4, as the code has it.  For every parsed document on which the builder returns,
  the abstract is one paragraph, the one just after the single-column section break.  It
  is justified; its first run is the text \<open>Abstract\<close> in bold and italic, its second run is
  the em-dash in bold and not in italic, and the runs after them, of which there is at
  least one, are those of the abstract text, all bold and not italic, at 9 points.
\<close>

theorem abstract_paragraph:
  assumes "numbers_in_range p"
  shows "\<exists>doc pre post body_runs. build_document E doc0 p = Inr doc
     \<and> d_body doc = pre @ [SectBreak single_column_region, Para (abstract_para E p)] @ post
     \<and> sect_breaks post = []
     \<and> pp_jc (abstract_para E p) = ''both''
     \<and> pp_runs (abstract_para E p)
         = Run \<lparr>r_font = FONT, r_sz = 18, r_b = True, r_i = True, r_smallCaps = False,
                r_vertAlign = [], r_t = u ''Abstract''\<rparr>
         # Run \<lparr>r_font = FONT, r_sz = 18, r_b = True, r_i = False, r_smallCaps = False,
                r_vertAlign = [], r_t = [EM_DASH]\<rparr>
         # body_runs
     \<and> body_runs = parse_math_text E (strip_markdown (join_space (p_abstract p)))
                      (rdef\<lparr>rsize := ABSTRACT_PT, bold := True\<rparr>)
     \<and> body_runs \<noteq> []
     \<and> (\<forall>r \<in> set body_runs. run_bold r \<and> \<not> run_italic r \<and> run_half_points r = 18)"
proof -
  let ?body = "parse_math_text E (strip_markdown (join_space (p_abstract p)))
                      (rdef\<lparr>rsize := ABSTRACT_PT, bold := True\<rparr>)"
  from build_document_total [OF assms] obtain doc where doc: "build_document E doc0 p = Inr doc"
    by blast
  from build_document_body [OF doc] obtain rest where
    b: "d_body doc = (Para (title_para p) # author_block [] (p_authors p))
            @ [SectBreak single_column_region, Para (abstract_para E p)] @ rest"
    and r: "sect_breaks rest = []"
    by auto
  have jc: "pp_jc (abstract_para E p) = ''both''"
    by (simp add: abstract_para_def Let_def make_paragraph_def align_map_def)
  have runs: "pp_runs (abstract_para E p)
         = Run \<lparr>r_font = FONT, r_sz = 18, r_b = True, r_i = True, r_smallCaps = False,
                r_vertAlign = [], r_t = u ''Abstract''\<rparr>
         # Run \<lparr>r_font = FONT, r_sz = 18, r_b = True, r_i = False, r_smallCaps = False,
                r_vertAlign = [], r_t = [EM_DASH]\<rparr>
         # ?body"
    by (simp add: abstract_para_def Let_def make_paragraph_def make_run_def rdef_def ABSTRACT_PT_def)
  have style: "\<forall>r \<in> set ?body. run_bold r \<and> \<not> run_italic r \<and> run_half_points r = 18"
    using parse_math_text_style [of _ E "strip_markdown (join_space (p_abstract p))"
        "rdef\<lparr>rsize := ABSTRACT_PT, bold := True\<rparr>"]
    by (simp add: rdef_def ABSTRACT_PT_def)
  from doc b r jc runs style parse_math_text_nonempty [of E] show ?thesis by blast
qed

theorem abstract_paragraph_witness:
  "numbers_in_range (paper 1) \<and>
   (\<exists>doc pre post body_runs. build_document cpython template (paper 1) = Inr doc
     \<and> d_body doc = pre @ [SectBreak single_column_region, Para (abstract_para cpython (paper 1))] @ post
     \<and> pp_runs (abstract_para cpython (paper 1))
         = Run \<lparr>r_font = FONT, r_sz = 18, r_b = True, r_i = True, r_smallCaps = False,
                r_vertAlign = [], r_t = u ''Abstract''\<rparr>
         # Run \<lparr>r_font = FONT, r_sz = 18, r_b = True, r_i = False, r_smallCaps = False,
                r_vertAlign = [], r_t = [EM_DASH]\<rparr>
         # body_runs
     \<and> body_runs \<noteq> []
     \<and> (\<forall>r \<in> set body_runs. run_bold r \<and> \<not> run_italic r \<and> run_half_points r = 18))"
  using abstract_paragraph [where p = "paper 1" and E = cpython and ?doc0.0 = template]
    numbers_in_range_paper [of 1]
  by simp blast

text \<open>
  Claim C4 as the specification states it has both runs of the lead-in in bold and italic.
  The second one, the em-dash, is built without the italic flag.
\<close>

theorem abstract_paragraph_counterexample:
  "map run_text (take 2 (pp_runs (abstract_para cpython (paper 1)))) = [u ''Abstract'', [EM_DASH]]
   \<and> map run_bold (take 2 (pp_runs (abstract_para cpython (paper 1)))) = [True, True]
   \<and> map run_italic (take 2 (pp_runs (abstract_para cpython (paper 1)))) = [True, False]"
  by (simp add: abstract_para_def Let_def make_paragraph_def make_run_def rdef_def
      run_text_def run_bold_def run_italic_def)

subsection \<open>The numbers of the equations\<close>

lemma equation_paras_append [simp]: "equation_paras (a @ b) = equation_paras a @ equation_paras b"
  by (induction a rule: equation_paras.induct) auto

lemma numbered_append: "numbered n (a @ b) = numbered n a @ numbered (n + int (length a)) b"
  by (induction a arbitrary: n) (auto simp: algebra_simps)

lemma equation_paras_render_text [simp]: "equation_paras (render_text E t) = []"
  by (simp add: render_text_def Let_def make_paragraph_def pdef_def split: option.splits prod.splits)

lemma equation_para_tabs: "pp_tabs (equation_para E b n) \<noteq> []"
  by (simp add: equation_para_def Let_def make_paragraph_def)

lemma equation_para_label: "equation_label (equation_para E b n) = u ''('' @ py_str n @ u '')''"
  by (simp add: equation_para_def Let_def make_paragraph_def equation_label_def make_run_def)

lemma render_content_equations:
  "equation_paras (fst (render_content E body ec items))
     = equation_paras body @ map (\<lambda>(k, b). equation_para E b k) (numbered (ec + 1) (equation_bodies items))
   \<and> snd (render_content E body ec items) = ec + int (length (equation_bodies items))"
proof (induction items arbitrary: body ec)
  case Nil
  show ?case by simp
next
  case (Cons it items)
  show ?case
  proof (cases it)
    case (PlainText t)
    then show ?thesis using Cons.IH [of "body @ render_text E t" ec] by simp
  next
    case (Equation b)
    then show ?thesis
      using Cons.IH [of "body @ [Para (equation_para E b (ec + 1))]" "ec + 1"]
      by (simp add: equation_para_tabs)
  qed
qed

lemma section_heading_equations: "section_heading sec = Inr hs \<Longrightarrow> equation_paras hs = []"
  by (auto simp: section_heading_def Let_def heading1_para_def heading2_para_def
      make_paragraph_def pdef_def split: if_splits sum.splits)

lemma build_sections_equations:
  "build_sections E body ec secs = Inr (body', ec') \<Longrightarrow>
     equation_paras body' = equation_paras body
        @ map (\<lambda>(k, b). equation_para E b k)
            (numbered (ec + 1) (concat (map (\<lambda>sec. equation_bodies (s_content sec)) secs)))"
proof (induction secs arbitrary: body ec)
  case Nil
  then show ?case by simp
next
  case (Cons sec secs)
  from Cons.prems obtain hs where hs: "section_heading sec = Inr hs"
    by (auto split: sum.splits)
  let ?r = "render_content E (body @ hs) ec (s_content sec)"
  from Cons.prems hs have "build_sections E (fst ?r) (snd ?r) secs = Inr (body', ec')"
    by (simp split: prod.splits)
  from Cons.IH [OF this] render_content_equations [of E "body @ hs" ec "s_content sec"]
    section_heading_equations [OF hs]
  show ?case by (simp add: numbered_append algebra_simps)
qed

lemma equation_paras_reference_paras [simp]: "equation_paras (reference_paras i refs) = []"
  by (induction refs arbitrary: i) (auto simp: make_paragraph_def pdef_def)

lemma equation_paras_affil [simp]: "equation_paras (affil_paragraphs ls) = []"
  by (induction ls) (auto simp: make_paragraph_def pdef_def)

lemma equation_paras_map_author [simp]:
  "equation_paras (map Para (map make_author_paragraph as)) = []"
  by (induction as) (auto simp: make_author_paragraph_def make_paragraph_def pdef_def)

lemma equation_paras_rows [simp]: "equation_paras (concat (map (row_blocks authors m) xs)) = []"
  by (induction xs) (simp_all add: row_blocks_def del: map_map)

lemma equation_paras_author_block [simp]: "equation_paras (author_block [] authors) = []"
  by (simp add: author_block_def Let_def foldl_author_row author_name_para_def
      make_paragraph_def pdef_def)

lemma build_document_parts:
  assumes "build_document E doc0 p = Inr doc"
  shows "\<exists>b c. build_sections E (front_blocks E p) 0 (p_sections p) = Inr (b, c)
           \<and> d_body doc = b @ Para references_heading_para # reference_paras 0 (p_references p)"
proof -
  let ?front = "Para (title_para p) # author_block [] (p_authors p)"
  have front: "author_block [Para (title_para p)] (p_authors p) = ?front"
    using author_block_append [of "[Para (title_para p)]"] by simp
  have inj: "inject_continuous_two_col_section_break (?front @ [Para (abstract_para E p)]) (length ?front)
      = ?front @ [SectBreak single_column_region, Para (abstract_para E p)]"
    by (simp add: inject_continuous_two_col_section_break_def insert_before_def
        single_column_region_def region_def)
  from assms front inj show ?thesis
    by (auto simp: build_document_def Let_def front_blocks_def set_final_section_two_col_def
        split: sum.splits if_splits)
qed

lemma equation_paras_front [simp]: "equation_paras (front_blocks E p) = []"
  by (simp add: front_blocks_def title_para_def abstract_para_def keywords_para_def Let_def
      make_paragraph_def pdef_def)

lemma numbered_fst: "map fst (numbered n bs) = [n..n + int (length bs) - 1]"
proof (induction bs arbitrary: n)
  case Nil
  show ?case by simp
next
  case (Cons b bs)
  have "[n..n + int (length (b # bs)) - 1] = n # [n + 1..n + 1 + int (length bs) - 1]"
    by (subst upto_rec1) (simp_all add: algebra_simps)
  with Cons.IH [of "n + 1"] show ?case by simp
qed

lemma numbered_labels:
  "map equation_label (map (\<lambda>(k, b). equation_para E b k) (numbered n bs))
     = map (\<lambda>k. u ''('' @ py_str k @ u '')'') [n..n + int (length bs) - 1]"
proof -
  have "map equation_label (map (\<lambda>(k, b). equation_para E b k) (numbered n bs))
      = map (\<lambda>k. u ''('' @ py_str k @ u '')'') (map fst (numbered n bs))"
    by (simp add: equation_para_label case_prod_unfold comp_def)
  then show ?thesis by (simp only: numbered_fst)
qed

lemma digits_of_small: "n < 10 \<Longrightarrow> digits_of n = [48 + n]"
  by (subst digits_of.simps) simp

text \<open>
  Claim C8.  For every parsed document on which the builder returns, the paragraphs with
  tab stops in the body are the paragraphs of the equations of all sections in document
  order, the \<open>k\<close>-th built with the number \<open>k\<close>, and their last runs read \<open>(1)\<close>, \<open>(2)\<close>, ...
  up to the number of equations: the counter starts at 1, grows by one with each equation
  and is not reset by a section.
\<close>

theorem equation_numbering:
  assumes "numbers_in_range p"
  shows "\<exists>doc. build_document E doc0 p = Inr doc
     \<and> equation_paras (d_body doc)
         = map (\<lambda>(k, b). equation_para E b k) (numbered 1 (all_equations p))
     \<and> map equation_label (equation_paras (d_body doc))
         = map (\<lambda>k. u ''('' @ py_str k @ u '')'') [1..int (length (all_equations p))]"
proof -
  from build_document_total [OF assms] obtain doc where doc: "build_document E doc0 p = Inr doc"
    by blast
  from build_document_parts [OF doc] obtain b c where
    bs: "build_sections E (front_blocks E p) 0 (p_sections p) = Inr (b, c)"
    and body: "d_body doc = b @ Para references_heading_para # reference_paras 0 (p_references p)"
    by blast
  have "equation_paras (d_body doc) = equation_paras b"
    by (simp add: body references_heading_para_def make_paragraph_def pdef_def)
  also have "\<dots> = map (\<lambda>(k, b). equation_para E b k) (numbered 1 (all_equations p))"
    using build_sections_equations [OF bs] by (simp add: all_equations_def)
  finally have eq: "equation_paras (d_body doc)
      = map (\<lambda>(k, b). equation_para E b k) (numbered 1 (all_equations p))" .
  have "map equation_label (equation_paras (d_body doc))
      = map (\<lambda>k. u ''('' @ py_str k @ u '')'') [1..int (length (all_equations p))]"
    using numbered_labels [of E 1 "all_equations p"] by (simp add: eq)
  with doc eq show ?thesis by blast
qed

theorem equation_numbering_witness:
  "numbers_in_range (paper 3) \<and>
   (\<exists>doc. build_document cpython template (paper 3) = Inr doc
     \<and> equation_paras (d_body doc)
         = [equation_para cpython (u ''a = b'') 1, equation_para cpython (u ''c = d'') 2]
     \<and> map equation_label (equation_paras (d_body doc)) = [u ''(1)'', u ''(2)''])"
proof -
  have a: "all_equations (paper 3) = [u ''a = b'', u ''c = d'']"
    by (simp add: all_equations_def paper_def)
  have s: "py_str 1 = u ''1''" "py_str 2 = u ''2''"
    by (simp_all add: py_str_def digits_of_small u_def)
  have r: "[1..2::int] = [1, 2]"
    by (simp add: upto_rec1)
  show ?thesis
    using equation_numbering [where p = "paper 3" and E = cpython and ?doc0.0 = template]
    by (simp add: numbers_in_range_paper a s r u_def)
qed

subsection \<open>The numbering prefix of a heading\<close>



lemma to_roman_1: "to_roman 1 = u ''I''"
  by (simp add: to_roman_def to_roman_loop.simps roman_vals_def u_def)



subsection \<open>Texts the transliterator leaves as they are\<close>

lemma re_sub_scan_no_match:
  "(\<And>prev t. suffix t s \<Longrightarrow> m prev t = None) \<Longrightarrow> re_sub_scan m 0 prev s = s"
proof (induction s arbitrary: prev)
  case Nil
  show ?case by simp
next
  case (Cons c cs)
  have "m prev (c # cs) = None" by (rule Cons.prems) simp
  moreover have "re_sub_scan m 0 (Some c) cs = cs"
    by (rule Cons.IH) (simp add: Cons.prems suffix_Cons)
  ultimately show ?case by simp
qed

lemma re_sub_no_match: "\<not> matches_in m s \<Longrightarrow> re_sub m s = s"
  unfolding re_sub_def matches_in_def by (rule re_sub_scan_no_match) blast

lemma foldl_id: "(\<And>x. x \<in> set xs \<Longrightarrow> f s x = s) \<Longrightarrow> foldl f s xs = s"
  by (induction xs) simp_all

lemma set_sorted_glyphs: "set sorted_glyphs = set LATEX_GLYPHS"
  by (simp add: sorted_glyphs_def)

lemma resolve_latex_commands_free:
  assumes "notation_free E s"
  shows "resolve_latex_commands E s = s"
proof -
  have m: "\<And>m. m \<in> set (rewrite_matchers E) \<Longrightarrow> re_sub m s = s"
    using assms by (simp add: notation_free_def re_sub_no_match)
  have a: "re_sub match_double_backslash s = s" "re_sub match_text s = s"
    "re_sub match_mathbb s = s" "re_sub match_frac s = s"
    by (rule m, simp add: rewrite_matchers_def)+
  have f: "foldl (\<lambda>t func. re_sub (match_func func) t) s (func_order E) = s"
    by (rule foldl_id, rule m) (simp add: rewrite_matchers_def)
  have g: "foldl (\<lambda>t (cmd, g). str_replace cmd g t) s sorted_glyphs = s"
  proof (rule foldl_id)
    fix x assume "x \<in> set sorted_glyphs"
    then have "x \<in> set LATEX_GLYPHS" by (simp add: set_sorted_glyphs)
    then have "match_literal (fst x) (snd x) \<in> set (rewrite_matchers E)"
      by (force simp: rewrite_matchers_def)
    from m [OF this] show "(case x of (cmd, g) \<Rightarrow> str_replace cmd g s) = s"
      by (simp add: str_replace_def case_prod_unfold)
  qed
  show ?thesis
    by (simp add: resolve_latex_commands_def Let_def a f g)
qed

lemma resolve_latex_free:
  assumes "notation_free E s"
  shows "resolve_latex E s = s"
proof -
  have m: "\<And>m. m \<in> set (rewrite_matchers E) \<Longrightarrow> re_sub m s = s"
    using assms by (simp add: notation_free_def re_sub_no_match)
  have a: "re_sub match_double_backslash s = s" "re_sub (match_inline_math E) s = s"
    by (rule m, simp add: rewrite_matchers_def)+
  show ?thesis
    by (simp add: resolve_latex_def Let_def a resolve_latex_commands_free [OF assms])
qed

lemma strip_prefix_hd: "strip_prefix (c # p) t \<noteq> None \<Longrightarrow> t \<noteq> [] \<and> hd t = c"
  by (cases t) (auto simp: strip_prefix_def split: if_splits)

lemma matcher_heads:
  "match_double_backslash prev t \<noteq> None \<Longrightarrow> t \<noteq> [] \<and> hd t = bsl"
  "match_text prev t \<noteq> None \<Longrightarrow> t \<noteq> [] \<and> hd t = bsl"
  "match_mathbb prev t \<noteq> None \<Longrightarrow> t \<noteq> [] \<and> hd t = bsl"
  "match_frac prev t \<noteq> None \<Longrightarrow> t \<noteq> [] \<and> hd t = bsl"
  "match_inline_math E prev t \<noteq> None \<Longrightarrow> t \<noteq> [] \<and> hd t = 36"
  "hd f = bsl \<Longrightarrow> f \<noteq> [] \<Longrightarrow> match_func f prev t \<noteq> None \<Longrightarrow> t \<noteq> [] \<and> hd t = bsl"
  "hd f = bsl \<Longrightarrow> f \<noteq> [] \<Longrightarrow> match_literal f g prev t \<noteq> None \<Longrightarrow> t \<noteq> [] \<and> hd t = bsl"
proof -
  show "match_double_backslash prev t \<noteq> None \<Longrightarrow> t \<noteq> [] \<and> hd t = bsl"
    by (auto simp: match_double_backslash_def split: list.splits if_splits)
  show "match_text prev t \<noteq> None \<Longrightarrow> t \<noteq> [] \<and> hd t = bsl"
    using strip_prefix_hd [of bsl "u ''text{''" t]
    by (auto simp: match_text_def split: option.splits)
  show "match_mathbb prev t \<noteq> None \<Longrightarrow> t \<noteq> [] \<and> hd t = bsl"
    using strip_prefix_hd [of bsl "u ''mathbb{''" t]
    by (auto simp: match_mathbb_def split: option.splits)
  show "match_frac prev t \<noteq> None \<Longrightarrow> t \<noteq> [] \<and> hd t = bsl"
    using strip_prefix_hd [of bsl "u ''frac{''" t]
    by (auto simp: match_frac_def split: option.splits)
  show "match_inline_math E prev t \<noteq> None \<Longrightarrow> t \<noteq> [] \<and> hd t = 36"
    by (auto simp: match_inline_math_def split: list.splits if_splits)
  show "hd f = bsl \<Longrightarrow> f \<noteq> [] \<Longrightarrow> match_func f prev t \<noteq> None \<Longrightarrow> t \<noteq> [] \<and> hd t = bsl"
    using strip_prefix_hd [of bsl "tl f" t]
    by (cases f) (auto simp: match_func_def split: option.splits)
  show "hd f = bsl \<Longrightarrow> f \<noteq> [] \<Longrightarrow> match_literal f g prev t \<noteq> None \<Longrightarrow> t \<noteq> [] \<and> hd t = bsl"
    using strip_prefix_hd [of bsl "tl f" t]
    by (cases f) (auto simp: match_literal_def split: option.splits)
qed

lemma glyph_heads: "\<forall>(cmd, g) \<in> set LATEX_GLYPHS. cmd \<noteq> [] \<and> hd cmd = bsl"
  by (simp add: LATEX_GLYPHS_def)

lemma function_heads: "\<forall>f \<in> set LATEX_FUNCTIONS. f \<noteq> [] \<and> hd f = bsl"
  by (simp add: LATEX_FUNCTIONS_def)

lemma suffix_hd_mem: "suffix t s \<Longrightarrow> t \<noteq> [] \<Longrightarrow> hd t \<in> set s"
  by (metis hd_in_set set_mono_suffix subsetD)

lemma rewrite_matchers_cases:
  assumes "m \<in> set (rewrite_matchers E)"
  obtains "m = match_double_backslash" | "m = match_inline_math E" | "m = match_text"
    | "m = match_mathbb" | "m = match_frac"
    | f where "f \<in> set (func_order E)" "m = match_func f"
    | cmd g where "(cmd, g) \<in> set LATEX_GLYPHS" "m = match_literal cmd g"
  using assms unfolding rewrite_matchers_def by auto

lemma matcher_needs_marker:
  assumes "runtime_ok E" "m \<in> set (rewrite_matchers E)" "m prev t \<noteq> None"
  shows "t \<noteq> [] \<and> (hd t = bsl \<or> hd t = 36)"
  using assms(2)
proof (cases rule: rewrite_matchers_cases)
  case 1
  with assms(3) matcher_heads(1) [of prev t] show ?thesis by simp
next
  case 2
  with assms(3) matcher_heads(5) [of E prev t] show ?thesis by simp
next
  case 3
  with assms(3) matcher_heads(2) [of prev t] show ?thesis by simp
next
  case 4
  with assms(3) matcher_heads(3) [of prev t] show ?thesis by simp
next
  case 5
  with assms(3) matcher_heads(4) [of prev t] show ?thesis by simp
next
  case (6 f)
  with assms(1) function_heads have "hd f = bsl" "f \<noteq> []"
    by (auto simp: runtime_ok_def)
  with 6 assms(3) matcher_heads(6) [of f prev t] show ?thesis by simp
next
  case (7 cmd g)
  with glyph_heads have "hd cmd = bsl" "cmd \<noteq> []" by auto
  with 7 assms(3) matcher_heads(7) [of cmd g prev t] show ?thesis by simp
qed

lemma plain_notation_free:
  assumes "runtime_ok E" "bsl \<notin> set s" "36 \<notin> set s"
  shows "notation_free E s"
proof -
  have "\<not> matches_in m s" if "m \<in> set (rewrite_matchers E)" for m
  proof
    assume "matches_in m s"
    then obtain prev t where t: "suffix t s" "m prev t \<noteq> None"
      by (auto simp: matches_in_def)
    from matcher_needs_marker [OF assms(1) that t(2)]
    have "t \<noteq> [] \<and> (hd t = bsl \<or> hd t = 36)" .
    with t(1) assms(2,3) suffix_hd_mem [of t s] show False by auto
  qed
  then show ?thesis by (simp add: notation_free_def)
qed

lemma bs_tails_mem: "suffix t s \<Longrightarrow> t \<noteq> [] \<Longrightarrow> hd t = bsl \<Longrightarrow> t \<in> set (bs_tails s)"
proof (induction s)
  case Nil
  then show ?case by simp
next
  case (Cons c cs)
  from Cons.prems(1) consider "t = c # cs" | "suffix t cs"
    by (auto simp: suffix_Cons)
  then show ?case
  proof cases
    case 1
    with Cons.prems show ?thesis by simp
  next
    case 2
    with Cons show ?thesis by simp
  qed
qed

lemma re_sub_bs_tails:
  assumes "\<And>prev t. m prev t \<noteq> None \<Longrightarrow> t \<noteq> [] \<and> hd t = bsl"
    and "\<forall>t \<in> set (bs_tails s). \<forall>prev. m prev t = None"
  shows "re_sub m s = s"
proof (rule re_sub_no_match)
  show "\<not> matches_in m s"
  proof
    assume "matches_in m s"
    then obtain prev t where t: "suffix t s" "m prev t \<noteq> None"
      by (auto simp: matches_in_def)
    from assms(1) [OF t(2)] t(1) have "t \<in> set (bs_tails s)"
      by (simp add: bs_tails_mem)
    with assms(2) t(2) show False by auto
  qed
qed

lemma functions_pass:
  assumes "runtime_ok E"
    and "\<forall>t \<in> set (bs_tails s). \<forall>f \<in> set LATEX_FUNCTIONS. match_func f None t = None"
  shows "foldl (\<lambda>t func. re_sub (match_func func) t) s (func_order E) = s"
proof (rule foldl_id)
  fix f assume "f \<in> set (func_order E)"
  with assms(1) have f: "f \<in> set LATEX_FUNCTIONS" by (simp add: runtime_ok_def)
  with function_heads have h: "hd f = bsl" "f \<noteq> []" by auto
  show "re_sub (match_func f) s = s"
  proof (rule re_sub_bs_tails)
    show "\<And>prev t. match_func f prev t \<noteq> None \<Longrightarrow> t \<noteq> [] \<and> hd t = bsl"
      using matcher_heads(6) [OF h] .
    show "\<forall>t \<in> set (bs_tails s). \<forall>prev. match_func f prev t = None"
      using assms(2) f by (simp add: match_func_def)
  qed
qed

lemma glyphs_pass:
  assumes "\<forall>t \<in> set (bs_tails s). \<forall>(cmd, g) \<in> set LATEX_GLYPHS. \<not> prefix cmd t"
  shows "foldl (\<lambda>t (cmd, g). str_replace cmd g t) s sorted_glyphs = s"
proof (rule foldl_id)
  fix x assume "x \<in> set sorted_glyphs"
  then have x: "x \<in> set LATEX_GLYPHS" by (simp add: set_sorted_glyphs)
  with glyph_heads have h: "hd (fst x) = bsl" "fst x \<noteq> []" by auto
  have "re_sub (match_literal (fst x) (snd x)) s = s"
  proof (rule re_sub_bs_tails)
    show "\<And>prev t. match_literal (fst x) (snd x) prev t \<noteq> None \<Longrightarrow> t \<noteq> [] \<and> hd t = bsl"
      using matcher_heads(7) [OF h] .
    show "\<forall>t \<in> set (bs_tails s). \<forall>prev. match_literal (fst x) (snd x) prev t = None"
      using assms x by (fastforce simp: match_literal_def strip_prefix_def)
  qed
  then show "(case x of (cmd, g) \<Rightarrow> str_replace cmd g s) = s"
    by (simp add: str_replace_def case_prod_unfold)
qed

lemmas eval_defs = re_sub_def match_frac_def strip_prefix_def u_def bsl_def brace_group_def
  not_brace_def match_func_def match_text_def match_mathbb_def match_double_backslash_def
  is_alpha_def is_upper_def match_inline_math_def

lemma no_functions_in_half_flat:
  "\<forall>t \<in> set (bs_tails half_flat). \<forall>f \<in> set LATEX_FUNCTIONS. match_func f None t = None"
  by (simp add: half_flat_def LATEX_FUNCTIONS_def eval_defs)

lemma no_glyphs_in_half_flat:
  "\<forall>t \<in> set (bs_tails half_flat). \<forall>(cmd, g) \<in> set LATEX_GLYPHS. \<not> prefix cmd t"
  by (simp add: half_flat_def LATEX_GLYPHS_def eval_defs)

lemma frac_nested: "re_sub match_frac nested_frac = half_flat"
  by (simp add: nested_frac_def half_flat_def eval_defs)

lemma frac_half_flat: "re_sub match_frac half_flat = u ''((a)/(b))/(c)''"
  by (simp add: half_flat_def eval_defs)

lemma commands_nested:
  assumes "runtime_ok E"
  shows "resolve_latex_commands E nested_frac = half_flat"
proof -
  have a: "re_sub match_double_backslash nested_frac = nested_frac"
    "re_sub match_text nested_frac = nested_frac"
    "re_sub match_mathbb nested_frac = nested_frac"
    by (simp_all add: nested_frac_def eval_defs)
  show ?thesis
    by (simp add: resolve_latex_commands_def Let_def a frac_nested
        functions_pass [OF assms no_functions_in_half_flat]
        glyphs_pass [OF no_glyphs_in_half_flat])
qed

lemma commands_plain:
  assumes "runtime_ok E" "bsl \<notin> set s"
  shows "foldl (\<lambda>t (cmd, g). str_replace cmd g t)
           (foldl (\<lambda>t func. re_sub (match_func func) t) s (func_order E)) sorted_glyphs = s"
proof -
  have "bs_tails s = []" using assms(2) by (induction s) auto
  then show ?thesis
    using functions_pass [OF assms(1), of s] glyphs_pass [of s] by simp
qed

lemma commands_half_flat:
  assumes "runtime_ok E"
  shows "resolve_latex_commands E half_flat = u ''((a)/(b))/(c)''"
proof -
  have a: "re_sub match_double_backslash half_flat = half_flat"
    "re_sub match_text half_flat = half_flat"
    "re_sub match_mathbb half_flat = half_flat"
    by (simp_all add: half_flat_def eval_defs)
  have "bsl \<notin> set (u ''((a)/(b))/(c)'')" by (simp add: u_def bsl_def)
  from commands_plain [OF assms this] show ?thesis
    by (simp add: resolve_latex_commands_def Let_def a frac_half_flat)
qed

lemma runtime_ok_cpython: "runtime_ok cpython"
  by (simp add: runtime_ok_def cpython_def LATEX_FUNCTIONS_def u_def bsl_def)




lemma half_flat_differs: "half_flat \<noteq> u ''((a)/(b))/(c)''"
  by (simp add: half_flat_def u_def bsl_def)

lemma commands_simple_frac:
  assumes "runtime_ok E"
  shows "resolve_latex_commands E (bsl # u ''frac{a+b}{c}'') = u ''(a+b)/(c)''"
proof -
  let ?s = "bsl # u ''frac{a+b}{c}''"
  have a: "re_sub match_double_backslash ?s = ?s" "re_sub match_text ?s = ?s"
    "re_sub match_mathbb ?s = ?s" "re_sub match_frac ?s = u ''(a+b)/(c)''"
    by (simp_all add: eval_defs)
  have "bsl \<notin> set (u ''(a+b)/(c)'')" by (simp add: u_def bsl_def)
  from commands_plain [OF assms this] show ?thesis
    by (simp add: resolve_latex_commands_def Let_def a)
qed


subsection \<open>The fraction rule\<close>

text \<open>
  Claim C3, as the code has it.  The fraction rule rewrites \<open>\frac{a+b}{c}\<close> to
  \<open>(a+b)/(c)\<close>, and matches its arguments brace-balanced to one level: \<open>\frac{x_{i}}{y}\<close>
  becomes \<open>(x_{i})/(y)\<close>, and in \<open>\frac{\frac{a}{b}}{c}\<close> the first argument is the whole
  inner fraction.  The inner fraction is inside the text that was replaced, which the
  substitution does not scan again: one application gives \<open>(\frac{a}{b})/(c)\<close>, and only
  a second one gives \<open>((a)/(b))/(c)\<close>.  The same holds for \<open>_resolve_latex_commands\<close> as
  a whole.
\<close>

theorem fraction_rewrite:
  "re_sub match_frac (bsl # u ''frac{a+b}{c}'') = u ''(a+b)/(c)''
   \<and> re_sub match_frac (bsl # u ''frac{x_{i}}{y}'') = u ''(x_{i})/(y)''
   \<and> re_sub match_frac (bsl # u ''frac{'' @ bsl # u ''frac{a}{b}}{c}'')
       = u ''('' @ bsl # u ''frac{a}{b})/(c)''
   \<and> re_sub match_frac (re_sub match_frac (bsl # u ''frac{'' @ bsl # u ''frac{a}{b}}{c}''))
       = u ''((a)/(b))/(c)''
   \<and> (runtime_ok E \<longrightarrow>
        resolve_latex_commands E (bsl # u ''frac{a+b}{c}'') = u ''(a+b)/(c)''
      \<and> resolve_latex_commands E (bsl # u ''frac{'' @ bsl # u ''frac{a}{b}}{c}'')
          = u ''('' @ bsl # u ''frac{a}{b})/(c)''
      \<and> resolve_latex_commands E
            (resolve_latex_commands E (bsl # u ''frac{'' @ bsl # u ''frac{a}{b}}{c}''))
          = u ''((a)/(b))/(c)'')"
proof -
  have "re_sub match_frac (bsl # u ''frac{a+b}{c}'') = u ''(a+b)/(c)''"
    "re_sub match_frac (bsl # u ''frac{x_{i}}{y}'') = u ''(x_{i})/(y)''"
    by (simp_all add: eval_defs)
  then show ?thesis
    using frac_nested frac_half_flat commands_simple_frac [of E] commands_nested [of E]
      commands_half_flat [of E]
    by (simp add: nested_frac_def half_flat_def)
qed

theorem fraction_rewrite_witness:
  "runtime_ok cpython
   \<and> resolve_latex_commands cpython (bsl # u ''frac{a+b}{c}'') = u ''(a+b)/(c)''
   \<and> resolve_latex_commands cpython (bsl # u ''frac{'' @ bsl # u ''frac{a}{b}}{c}'')
       = u ''('' @ bsl # u ''frac{a}{b})/(c)''
   \<and> resolve_latex_commands cpython
         (resolve_latex_commands cpython (bsl # u ''frac{'' @ bsl # u ''frac{a}{b}}{c}''))
       = u ''((a)/(b))/(c)''"
  using fraction_rewrite [of cpython] runtime_ok_cpython by blast

text \<open>
  Claim C3 as the specification states it: one application does not give
  \<open>((a)/(b))/(c)\<close> on the nested input.
\<close>

theorem fraction_rewrite_counterexample:
  "re_sub match_frac (bsl # u ''frac{'' @ bsl # u ''frac{a}{b}}{c}'') \<noteq> u ''((a)/(b))/(c)''
   \<and> resolve_latex_commands cpython (bsl # u ''frac{'' @ bsl # u ''frac{a}{b}}{c}'')
       \<noteq> u ''((a)/(b))/(c)''"
  using frac_nested commands_nested [OF runtime_ok_cpython] half_flat_differs
  by (simp add: nested_frac_def)

subsection \<open>Idempotence\<close>




subsection \<open>Subscripts and superscripts\<close>

text \<open>
  Claim C7.  In any run of the interpreter that visits each function once, the splitter
  turns \<open>X_{ab}^c\<close> into exactly three runs, in this order: \<open>X\<close> plain, \<open>ab\<close> as a
  subscript, \<open>c\<close> as a superscript, all with the size, weight, slant and font asked for.
\<close>

theorem script_splitting:
  assumes "runtime_ok E"
  shows "parse_math_text E (u ''X_{ab}^c'') a
     = [make_run (u ''X'') (rdef\<lparr>rsize := rsize a, bold := bold a, italic := italic a, font := font a\<rparr>),
        make_run (u ''ab'') (rdef\<lparr>rsize := rsize a, bold := bold a, italic := italic a, font := font a,
                                   subscript := True\<rparr>),
        make_run (u ''c'') (rdef\<lparr>rsize := rsize a, bold := bold a, italic := italic a, font := font a,
                                  superscript := True\<rparr>)]"
proof -
  have "notation_free E (u ''X_{ab}^c'')"
    by (rule plain_notation_free [OF assms]) (simp_all add: u_def bsl_def)
  then have r: "resolve_latex E (u ''X_{ab}^c'') = u ''X_{ab}^c''"
    by (rule resolve_latex_free)
  show ?thesis
    by (simp add: parse_math_text_def Let_def r)
       (simp add: u_def match_script_def is_space_def rdef_def make_run_def)
qed

theorem script_splitting_witness:
  "runtime_ok cpython \<and>
   parse_math_text cpython (u ''X_{ab}^c'') rdef
     = [Run \<lparr>r_font = FONT, r_sz = 20, r_b = False, r_i = False, r_smallCaps = False,
             r_vertAlign = [], r_t = u ''X''\<rparr>,
        Run \<lparr>r_font = FONT, r_sz = 20, r_b = False, r_i = False, r_smallCaps = False,
             r_vertAlign = [''subscript''], r_t = u ''ab''\<rparr>,
        Run \<lparr>r_font = FONT, r_sz = 20, r_b = False, r_i = False, r_smallCaps = False,
             r_vertAlign = [''superscript''], r_t = u ''c''\<rparr>]"
  using script_splitting [OF runtime_ok_cpython, of rdef] runtime_ok_cpython
  by (simp add: rdef_def make_run_def BODY_PT_def)

subsection \<open>The numbers of the sections\<close>

lemma numbers_from_snoc:
  "numbers_from c (ks @ [(lvl, n)]) =
     (numbers_from c ks \<and>
      (if lvl = 1 then n = fst (counters_after c ks) + 1
       else lvl = 2 \<and> n = snd (counters_after c ks) + 1))"
  by (induction c ks rule: numbers_from.induct) auto

lemma counters_after_snoc:
  "counters_after c (ks @ [(lvl, n)]) =
     (if lvl = 1 then (fst (counters_after c ks) + 1, 0)
      else (fst (counters_after c ks), snd (counters_after c ks) + 1))"
  by (induction c ks rule: counters_after.induct) auto

lemma counted_same: "same_sections st st' \<Longrightarrow> counted st \<Longrightarrow> counted st'"
  by (simp add: counted_def same_sections_def)

lemma same_sections_refl [simp]: "same_sections st st"
  by (simp add: same_sections_def)

lemma post_title_same:
  "post_title_line st t = Inl st' \<or> post_title_line st t = Inr st' \<Longrightarrow> same_sections st st'"
  by (auto simp: post_title_line_def same_sections_def split: if_splits option.splits)

lemma abstract_same:
  "abstract_line st t = Inl st' \<or> abstract_line st t = Inr st' \<Longrightarrow> same_sections st st'"
  by (auto simp: abstract_line_def same_sections_def split: if_splits)

lemma keywords_same:
  "keywords_line st t = Inl st' \<or> keywords_line st t = Inr st' \<Longrightarrow> same_sections st st'"
  by (auto simp: keywords_line_def same_sections_def split: if_splits)

lemma section_keys_add_content:
  "section_keys (p_sections (result (add_content st i item)))
     = section_keys (p_sections (result st))"
proof (cases "i < length (p_sections (result st))")
  case True
  then show ?thesis
    by (simp add: add_content_def section_keys_def map_update list_update_same_conv)
next
  case False
  then show ?thesis by (simp add: add_content_def list_update_beyond)
qed

lemma counted_add_content: "counted st \<Longrightarrow> counted (add_content st i item)"
  using section_keys_add_content [of st i item]
  by (simp add: counted_def) (simp add: add_content_def)

lemma counted_add_section:
  assumes "counted st" "p_sections (result st') = p_sections (result st)"
    and "(lvl = 1 \<and> h1_count st' = h1_count st + 1 \<and> h2_count st' = 0 \<and> n = h1_count st')
       \<or> (lvl = 2 \<and> h1_count st' = h1_count st \<and> h2_count st' = h2_count st + 1 \<and> n = h2_count st')"
  shows "counted (add_section st' lvl heading n)"
  using assms
  by (auto simp: counted_def add_section_def section_keys_def numbers_from_snoc counters_after_snoc)

lemma counted_body_line:
  assumes "counted st"
  shows "counted (body_line st t)"
proof -
  consider "is_rule t" | "\<not> is_rule t" "prefix (u ''## '') t"
    | "\<not> is_rule t" "\<not> prefix (u ''## '') t" "prefix (u ''### '') t"
    | "\<not> is_rule t" "\<not> prefix (u ''## '') t" "\<not> prefix (u ''### '') t"
    by blast
  then show ?thesis
  proof cases
    case 1
    then show ?thesis using assms by (simp add: body_line_def)
  next
    case 2
    then show ?thesis
      by (simp add: body_line_def Let_def) (rule counted_add_section [OF assms], simp_all)
  next
    case 3
    then show ?thesis
      by (simp add: body_line_def Let_def) (rule counted_add_section [OF assms], simp_all)
  next
    case 4
    then show ?thesis
      using assms by (simp add: body_line_def counted_add_content split: option.splits)
  qed
qed

lemma counted_after_title:
  assumes "counted st"
  shows "counted (after_title st t)"
proof -
  have c: "counted (st\<lparr>state := x, current_section := None\<rparr>)" for x
    using assms by (simp add: counted_def)
  have a: "counted st'" if "abstract_line st t = Inl st' \<or> abstract_line st t = Inr st'" for st'
    using counted_same [OF abstract_same [OF that] assms] .
  have k: "counted st''" if "counted st'" "keywords_line st' t = Inl st'' \<or> keywords_line st' t = Inr st''"
    for st' st''
    using counted_same [OF keywords_same [OF that(2)] that(1)] .
  have rest: "counted (if heading_named ''keywords'' t
          then st'\<lparr>state := ''keywords'', current_section := None\<rparr>
          else case (if state st' = ''keywords'' then keywords_line st' t else Inr st') of
            Inl st \<Rightarrow> st
          | Inr st \<Rightarrow> body_line st t)" if s: "counted st'" for st'
  proof -
    have "counted (st'\<lparr>state := ''keywords'', current_section := None\<rparr>)"
      using s by (simp add: counted_def)
    moreover have "counted (case keywords_line st' t of Inl st \<Rightarrow> st | Inr st \<Rightarrow> body_line st t)"
      using k [OF s] counted_body_line by (cases "keywords_line st' t") auto
    ultimately show ?thesis using s counted_body_line by simp
  qed
  show ?thesis
    unfolding after_title_def
    using c a rest assms
    by (cases "abstract_line st t") (auto simp del: split_paired_All)
qed

lemma counted_parse_line:
  assumes "counted st" "parse_line E st raw following = (st', k)"
  shows "counted st'"
proof -
  let ?t = "strip (rstrip_newline raw)"
  let ?line = "rstrip_newline raw"
  have p: "counted s'" if "post_title_line st ?t = Inl s' \<or> post_title_line st ?t = Inr s'" for s'
    using counted_same [OF post_title_same [OF that] assms(1)] .
  consider (refs) "heading_named ''references'' ?t \<or> ?t = u ''REFERENCES''"
    | (inrefs) "\<not> (heading_named ''references'' ?t \<or> ?t = u ''REFERENCES'')" "in_references st"
    | (title) "\<not> (heading_named ''references'' ?t \<or> ?t = u ''REFERENCES'')" "\<not> in_references st"
        "prefix (u ''# '') ?line \<and> state st = ''front''"
    | (other) "\<not> (heading_named ''references'' ?t \<or> ?t = u ''REFERENCES'')" "\<not> in_references st"
        "\<not> (prefix (u ''# '') ?line \<and> state st = ''front'')"
    by blast
  then show ?thesis
  proof cases
    case refs
    with assms(2) have "st' = st\<lparr>in_references := True, current_section := None\<rparr>"
      by (auto simp: parse_line_def Let_def)
    with assms(1) show ?thesis by (simp add: counted_def)
  next
    case inrefs
    with assms(2) have "same_sections st st'"
      by (auto simp: parse_line_def Let_def same_sections_def split: option.splits)
    with assms(1) show ?thesis by (rule counted_same [rotated])
  next
    case title
    with assms(2) have "same_sections st st'"
      by (auto simp: parse_line_def Let_def same_sections_def)
    with assms(1) show ?thesis by (rule counted_same [rotated])
  next
    case other
    show ?thesis
    proof (cases "state st = ''post_title''")
      case True
      show ?thesis
      proof (cases "post_title_line st ?t")
        case (Inl s')
        with other True assms(2) have "st' = s'"
          by (auto simp: parse_line_def Let_def)
        with p Inl show ?thesis by simp
      next
        case (Inr s')
        with other True assms(2) have "st' = after_title s' ?t"
          by (auto simp: parse_line_def Let_def)
        with p Inr counted_after_title show ?thesis by simp
      qed
    next
      case False
      with other assms(2) have "st' = after_title st ?t"
        by (auto simp: parse_line_def Let_def)
      with assms(1) counted_after_title show ?thesis by simp
    qed
  qed
qed

lemma counted_parse_loop: "counted st \<Longrightarrow> counted (parse_loop E st lines)"
proof (induction E st lines rule: parse_loop.induct)
  case (1 E st)
  then show ?case by simp
next
  case (2 E st l ls)
  obtain st' k where pl: "parse_line E st l ls = (st', k)"
    by (cases "parse_line E st l ls")
  from counted_parse_line [OF "2.prems" pl] have c: "counted st'" .
  from "2.IH" [OF pl [symmetric] c] pl show ?case by simp
qed

lemma parse_markdown_numbers:
  "numbers_from (0, 0) (section_keys (p_sections (parse_markdown E lines)))"
proof -
  have "counted \<lparr>result = \<lparr>p_title = [], p_authors = [], p_abstract = [], p_keywords = [],
                   p_sections = [], p_references = []\<rparr>,
        state = ''front'', in_references = False, current_section = None,
        h1_count = 0, h2_count = 0\<rparr>"
    by (simp add: counted_def section_keys_def)
  from counted_parse_loop [OF this, of E lines] show ?thesis
    by (simp add: parse_markdown_def counted_def)
qed

lemma heading_texts_append [simp]: "heading_texts (a @ b) = heading_texts a @ heading_texts b"
  by (induction a rule: heading_texts.induct) auto

lemma heading_texts_render_text [simp]: "heading_texts (render_text E t) = []"
  by (simp add: render_text_def Let_def make_paragraph_def pdef_def split: option.splits prod.splits)

lemma heading_texts_render_content [simp]:
  "heading_texts (fst (render_content E body ec items)) = heading_texts body"
proof (induction items arbitrary: body ec)
  case Nil
  show ?case by simp
next
  case (Cons it items)
  show ?case
    by (cases it) (simp_all add: Cons.IH equation_para_def Let_def make_paragraph_def pdef_def)
qed

lemma heading_texts_section_heading:
  "section_heading sec = Inr hs \<Longrightarrow> heading_texts hs = section_display sec"
  by (auto simp: section_heading_def section_display_def Let_def heading1_para_def
      heading2_para_def make_paragraph_def pdef_def make_run_def run_text_def
      split: if_splits sum.splits)

lemma build_sections_headings:
  "build_sections E body ec secs = Inr (body', ec') \<Longrightarrow>
     heading_texts body' = heading_texts body @ concat (map section_display secs)"
proof (induction secs arbitrary: body ec)
  case Nil
  then show ?case by simp
next
  case (Cons sec secs)
  from Cons.prems obtain hs where hs: "section_heading sec = Inr hs"
    by (auto split: sum.splits)
  let ?r = "render_content E (body @ hs) ec (s_content sec)"
  from Cons.prems hs have "build_sections E (fst ?r) (snd ?r) secs = Inr (body', ec')"
    by (simp split: prod.splits)
  from Cons.IH [OF this] heading_texts_section_heading [OF hs]
  show ?case by simp
qed

lemma heading_texts_reference_paras [simp]: "heading_texts (reference_paras i refs) = []"
  by (induction refs arbitrary: i) (auto simp: make_paragraph_def pdef_def)

lemma heading_texts_affil [simp]: "heading_texts (affil_paragraphs ls) = []"
  by (induction ls) (auto simp: make_paragraph_def pdef_def)

lemma heading_texts_map_author [simp]:
  "heading_texts (map Para (map make_author_paragraph as)) = []"
  by (induction as) (auto simp: make_author_paragraph_def make_paragraph_def pdef_def)

lemma heading_texts_rows [simp]: "heading_texts (concat (map (row_blocks authors m) xs)) = []"
  by (induction xs) (simp_all add: row_blocks_def del: map_map)

lemma heading_texts_front [simp]: "heading_texts (front_blocks E p) = []"
  by (simp add: front_blocks_def title_para_def abstract_para_def keywords_para_def Let_def
      make_paragraph_def pdef_def author_block_def foldl_author_row author_name_para_def)

lemma build_document_headings:
  assumes "build_document E doc0 p = Inr doc"
  shows "heading_texts (d_body doc) = concat (map section_display (p_sections p))"
proof -
  from build_document_parts [OF assms] obtain b c where
    bs: "build_sections E (front_blocks E p) 0 (p_sections p) = Inr (b, c)"
    and body: "d_body doc = b @ Para references_heading_para # reference_paras 0 (p_references p)"
    by blast
  from build_sections_headings [OF bs] show ?thesis
    by (simp add: body references_heading_para_def make_paragraph_def pdef_def)
qed

lemma to_roman_2: "to_roman 2 = u ''II''"
  by (simp add: to_roman_def to_roman_loop.simps roman_vals_def u_def)

lemma to_letter_1_2: "to_letter 1 = Inr (u ''A'')" "to_letter 2 = Inr (u ''B'')"
  by (simp_all add: to_letter_def py_chr_def u_def)

lemma five_levels:
  assumes "map s_level secs = [1, 2, 2, 1, 2]" "numbers_from (0, 0) (section_keys secs)"
  shows "map s_number secs = [1, 1, 2, 2, 1]"
proof -
  from assms(1) obtain a b c d e where secs: "secs = [a, b, c, d, e]"
    by (auto simp: map_eq_Cons_conv)
  with assms show ?thesis by (simp add: section_keys_def)
qed

lemmas parse_defs = parse_markdown_def parse_line_def after_title_def body_line_def
  post_title_line_def abstract_line_def keywords_line_def add_section_def add_content_def
  add_author_line_def heading_named_def ci_char_def is_rule_def at_end_def is_h2_any_def
  ref_number_def ref_match_def is_continuation_def enclosed_def author_name_match_def
  author_line_match_def eq_match_def strip_def rstrip_newline_def strip_prefix_def u_def
  is_space_def rest_of_line_def Let_def

lemma parse_sample:
  "parse_markdown cpython sample_lines =
     \<lparr>p_title = u ''On Things'',
      p_authors = [\<lparr>a_name = u ''Ada'', a_lines = [u ''Lab'']\<rparr>],
      p_abstract = [u ''We study things.''],
      p_keywords = [],
      p_sections =
        [\<lparr>s_level = 1, s_heading = u ''Introduction'', s_number = 1,
           s_content = [PlainText (u ''Things are.'')]\<rparr>,
         \<lparr>s_level = 2, s_heading = u ''1. Scope'', s_number = 1,
           s_content = [Equation (u ''a = b'')]\<rparr>,
         \<lparr>s_level = 2, s_heading = u ''Plan'', s_number = 2, s_content = []\<rparr>,
         \<lparr>s_level = 1, s_heading = u ''Method'', s_number = 2, s_content = []\<rparr>,
         \<lparr>s_level = 2, s_heading = u ''Setup'', s_number = 1, s_content = []\<rparr>],
      p_references = [u ''Smith, J. Paper One.'']\<rparr>"
  by (simp add: sample_lines_def cpython_def parse_defs)

lemma numbers_in_range_sample: "numbers_in_range (parse_markdown cpython sample_lines)"
  by (simp add: parse_sample numbers_in_range_def)

text \<open>
  Claim C5.  Whatever the file, the sections the parser returns are numbered by the two
  counters: each counter grows by one within its scope, and the level-2 counter starts
  again whenever a level-1 section begins.  When the levels of the sections are
  1, 2, 2, 1, 2, their numbers are 1, 1, 2, 2, 1, the builder returns, and the headings of
  the document built begin with \<open>I\<close>, \<open>A\<close>, \<open>B\<close>, \<open>II\<close>, \<open>A\<close>, each followed by a period, a
  space and the heading text without its old prefix.
\<close>

theorem section_numbering:
  "numbers_from (0, 0) (section_keys (p_sections (parse_markdown E lines)))
   \<and> (map s_level (p_sections (parse_markdown E lines)) = [1, 2, 2, 1, 2] \<longrightarrow>
        map s_number (p_sections (parse_markdown E lines)) = [1, 1, 2, 2, 1]
      \<and> (\<exists>doc. build_document E doc0 (parse_markdown E lines) = Inr doc
           \<and> heading_texts (d_body doc)
               = map2 (\<lambda>pre s. pre @ u ''. '' @ strip_numbering (s_heading s))
                   [u ''I'', u ''A'', u ''B'', u ''II'', u ''A'']
                   (p_sections (parse_markdown E lines))))"
proof (intro conjI impI)
  let ?secs = "p_sections (parse_markdown E lines)"
  show n: "numbers_from (0, 0) (section_keys ?secs)"
    by (rule parse_markdown_numbers)
  assume l: "map s_level ?secs = [1, 2, 2, 1, 2]"
  from five_levels [OF l n] show nums: "map s_number ?secs = [1, 1, 2, 2, 1]" .
  from l obtain a b c d e where secs: "?secs = [a, b, c, d, e]"
    by (auto simp: map_eq_Cons_conv)
  from l nums secs have k: "s_level a = 1" "s_level b = 2" "s_level c = 2" "s_level d = 1"
    "s_level e = 2" "s_number a = 1" "s_number b = 1" "s_number c = 2" "s_number d = 2"
    "s_number e = 1" by simp_all
  have "numbers_in_range (parse_markdown E lines)"
    by (simp add: numbers_in_range_def secs k)
  from build_document_total [OF this] obtain doc where
    doc: "build_document E doc0 (parse_markdown E lines) = Inr doc" by blast
  have "heading_texts (d_body doc)
      = map2 (\<lambda>pre s. pre @ u ''. '' @ strip_numbering (s_heading s))
          [u ''I'', u ''A'', u ''B'', u ''II'', u ''A''] ?secs"
    by (simp add: build_document_headings [OF doc] secs section_display_def k
        to_roman_1 to_roman_2 to_letter_1_2)
  with doc show "\<exists>doc. build_document E doc0 (parse_markdown E lines) = Inr doc
           \<and> heading_texts (d_body doc)
               = map2 (\<lambda>pre s. pre @ u ''. '' @ strip_numbering (s_heading s))
                   [u ''I'', u ''A'', u ''B'', u ''II'', u ''A''] ?secs" by blast
qed

theorem section_numbering_witness:
  "map s_level (p_sections (parse_markdown cpython sample_lines)) = [1, 2, 2, 1, 2]
   \<and> map s_number (p_sections (parse_markdown cpython sample_lines)) = [1, 1, 2, 2, 1]
   \<and> (\<exists>doc. build_document cpython template (parse_markdown cpython sample_lines) = Inr doc
        \<and> heading_texts (d_body doc)
            = [u ''I. Introduction'', u ''A. Scope'', u ''B. Plan'', u ''II. Method'',
               u ''A. Setup''])"
proof -
  have l: "map s_level (p_sections (parse_markdown cpython sample_lines)) = [1, 2, 2, 1, 2]"
    by (simp add: parse_sample)
  have h: "map2 (\<lambda>pre s. pre @ u ''. '' @ strip_numbering (s_heading s))
             [u ''I'', u ''A'', u ''B'', u ''II'', u ''A'']
             (p_sections (parse_markdown cpython sample_lines))
      = [u ''I. Introduction'', u ''A. Scope'', u ''B. Plan'', u ''II. Method'', u ''A. Setup'']"
    by (simp add: parse_sample strip_numbering_def Let_def u_def is_alnum_def is_alpha_def
        is_space_def)
  from section_numbering [of cpython sample_lines template] l h show ?thesis
    by simp
qed

subsection \<open>The command line\<close>

text \<open>
  Claim C9.  If the resolved path does not exist, the program prints the message that the
  file was not found and exits with status 1, before any parsing or building.  If the path
  exists and its suffix in lower case is not \<open>.md\<close>, the program prints the warning and
  then does exactly what it does for a \<open>.md\<close> file, with the same ending; when reading,
  building and saving do not raise it goes through parsing, building and saving and
  returns with status 0.
\<close>

theorem command_line:
  "(\<not> path_exists w \<longrightarrow>
       program E doc0 w = (prompt_events w @ [Print MsgNotFound], Exit 1)
     \<and> exit_status (snd (program E doc0 w)) \<noteq> 0
     \<and> Parse \<notin> set (fst (program E doc0 w)) \<and> Build \<notin> set (fst (program E doc0 w)))
   \<and> (path_exists w \<and> suffix_lower w \<noteq> u ''.md'' \<longrightarrow>
       (\<exists>rest. fst (program E doc0 w) = prompt_events w @ Print MsgWarning # rest
          \<and> program E doc0 (w\<lparr>suffix_lower := u ''.md''\<rparr>)
              = (prompt_events w @ rest, snd (program E doc0 w)))
     \<and> (\<forall>lines doc. read_lines w = Inr lines
          \<and> build_document E doc0 (parse_markdown E lines) = Inr doc \<and> save_raises w = None \<longrightarrow>
           snd (program E doc0 w) = Returned
         \<and> exit_status (snd (program E doc0 w)) = 0
         \<and> fst (program E doc0 w)
             = prompt_events w @ [Print MsgWarning, Print MsgInput, Print MsgOutput, Print MsgBlank,
                 Print MsgParsing, Parse, Print (MsgSummary (parse_markdown E lines)),
                 Print MsgBlank, Print MsgBuilding, Build, Save doc, Print MsgSaved]
               @ prompt_events w))"
proof (intro conjI impI)
  assume "\<not> path_exists w"
  then show "program E doc0 w = (prompt_events w @ [Print MsgNotFound], Exit 1)"
    "exit_status (snd (program E doc0 w)) \<noteq> 0"
    "Parse \<notin> set (fst (program E doc0 w))" "Build \<notin> set (fst (program E doc0 w))"
    by (simp_all add: program_def main_def prompt_events_def exit_status_def)
next
  assume a: "path_exists w \<and> suffix_lower w \<noteq> u ''.md''"
  then show "\<exists>rest. fst (program E doc0 w) = prompt_events w @ Print MsgWarning # rest
          \<and> program E doc0 (w\<lparr>suffix_lower := u ''.md''\<rparr>)
              = (prompt_events w @ rest, snd (program E doc0 w))"
    by (auto simp: program_def main_def prompt_events_def Let_def
        split: sum.splits option.splits)
  from a show "\<forall>lines doc. read_lines w = Inr lines
          \<and> build_document E doc0 (parse_markdown E lines) = Inr doc \<and> save_raises w = None \<longrightarrow>
           snd (program E doc0 w) = Returned
         \<and> exit_status (snd (program E doc0 w)) = 0
         \<and> fst (program E doc0 w)
             = prompt_events w @ [Print MsgWarning, Print MsgInput, Print MsgOutput, Print MsgBlank,
                 Print MsgParsing, Parse, Print (MsgSummary (parse_markdown E lines)),
                 Print MsgBlank, Print MsgBuilding, Build, Save doc, Print MsgSaved]
               @ prompt_events w"
    by (auto simp: program_def main_def prompt_events_def Let_def exit_status_def)
qed

theorem command_line_witness:
  "program cpython template (sample_world\<lparr>path_exists := False\<rparr>) = ([Print MsgNotFound], Exit 1)
   \<and> path_exists sample_world \<and> suffix_lower sample_world \<noteq> u ''.md''
   \<and> (\<exists>doc. build_document cpython template (parse_markdown cpython sample_lines) = Inr doc
        \<and> program cpython template sample_world
            = ([Print MsgWarning, Print MsgInput, Print MsgOutput, Print MsgBlank,
                Print MsgParsing, Parse, Print (MsgSummary (parse_markdown cpython sample_lines)),
                Print MsgBlank, Print MsgBuilding, Build, Save doc, Print MsgSaved], Returned)
        \<and> program cpython template (sample_world\<lparr>suffix_lower := u ''.md''\<rparr>)
            = ([Print MsgInput, Print MsgOutput, Print MsgBlank,
                Print MsgParsing, Parse, Print (MsgSummary (parse_markdown cpython sample_lines)),
                Print MsgBlank, Print MsgBuilding, Build, Save doc, Print MsgSaved], Returned))"
proof -
  obtain doc where doc: "build_document cpython template (parse_markdown cpython sample_lines) = Inr doc"
    using build_document_total [OF numbers_in_range_sample] by blast
  have s: "path_exists sample_world" "suffix_lower sample_world \<noteq> u ''.md''"
    "read_lines sample_world = Inr sample_lines" "save_raises sample_world = None"
    "prompt_events sample_world = []" "prompt_events (sample_world\<lparr>path_exists := False\<rparr>) = []"
    by (simp_all add: sample_world_def prompt_events_def u_def)
  have n: "program cpython template (sample_world\<lparr>path_exists := False\<rparr>) = ([Print MsgNotFound], Exit 1)"
    using command_line [of "sample_world\<lparr>path_exists := False\<rparr>" cpython template] s(6)
    by simp
  have f: "fst (program cpython template sample_world)
      = [Print MsgWarning, Print MsgInput, Print MsgOutput, Print MsgBlank,
         Print MsgParsing, Parse, Print (MsgSummary (parse_markdown cpython sample_lines)),
         Print MsgBlank, Print MsgBuilding, Build, Save doc, Print MsgSaved]"
    and r: "snd (program cpython template sample_world) = Returned"
    using command_line [of sample_world cpython template] s doc by simp_all
  from command_line [of sample_world cpython template] s(1,2,5) f r
  have m: "program cpython template (sample_world\<lparr>suffix_lower := u ''.md''\<rparr>)
      = ([Print MsgInput, Print MsgOutput, Print MsgBlank,
          Print MsgParsing, Parse, Print (MsgSummary (parse_markdown cpython sample_lines)),
          Print MsgBlank, Print MsgBuilding, Build, Save doc, Print MsgSaved], Returned)"
    by auto
  from n s(1,2) doc f r m show ?thesis
    by (intro conjI exI [of _ doc]) (simp_all add: prod_eq_iff)
qed

end
